theory Spec2Isabelle
  imports Complex_Main
begin

section \<open>Satellite trajectory analyzer: a model of \<open>satellite_monitor.py\<close>\<close>

text \<open>
  The script fetches two-line element sets, samples each satellite's position on a
  uniform time grid, finds for every pair of satellites the sample index of closest
  approach, and renders every pair as ALERT or SAFE against a distance threshold.

  Conventions of the model.
  \<^item> A coordinate or a distance in a numpy array is a finite real number or NaN
    (\<open>npfloat\<close>); NaN is absorbing. The arithmetic that turns two positions into a
    distance is exact here (no rounding, no overflow), so what is proved of a distance
    as a function of the positions holds up to rounding; what is proved of the choice
    among the distances is stated over an arbitrary array of distances. Positive
    infinity appears only where \<open>numpy.nanargmin\<close> itself introduces it.
  \<^item> A Python float (the window in hours, the number of steps before \<open>int\<close>, the
    seconds of a countdown) is an IEEE double (\<open>pyfloat\<close>): every operation rounds the
    exact result to the nearest double, ties to even, and overflows to infinity.
  \<^item> A \<open>datetime\<close> is a count of microseconds (its resolution) from 0001-01-01
    00:00:00, below the count of 10000-01-01; its fields year, month, day, hour, minute
    and second together encode the whole seconds \<open>t div 1000000\<close>, its field microsecond
    is \<open>t mod 1000000\<close>. An addition that leaves this range raises OverflowError.
  \<^item> An exception is a value \<open>Inl e\<close> of a sum type; an uncaught exception at module
    level ends the script, so it is the result of the whole run.
  \<^item> The libraries (requests, sgp4) are parameters of the functions that call them.
\<close>

subsection \<open>Exceptions\<close>

datatype error =
    ValueError          \<comment> \<open>numpy: shapes that do not broadcast, empty or all-NaN argmin\<close>
  | AxisError           \<comment> \<open>numpy: axis 1 of a one-dimensional array\<close>
  | ZeroDivisionError   \<comment> \<open>Python: float division by zero\<close>
  | OverflowError       \<comment> \<open>Python: \<open>int\<close> of an infinity, int too large for a float, date out of range\<close>
  | LibraryError string \<comment> \<open>whatever \<open>Satrec.twoline2rv\<close> raises\<close>

subsection \<open>Floats and arrays\<close>

datatype npfloat = Fin real | NaN

fun fl_sub :: "npfloat \<Rightarrow> npfloat \<Rightarrow> npfloat" where
  "fl_sub (Fin a) (Fin b) = Fin (a - b)"
| "fl_sub _ _ = NaN"

fun fl_add :: "npfloat \<Rightarrow> npfloat \<Rightarrow> npfloat" where
  "fl_add (Fin a) (Fin b) = Fin (a + b)"
| "fl_add _ _ = NaN"

fun fl_mul :: "npfloat \<Rightarrow> npfloat \<Rightarrow> npfloat" where
  "fl_mul (Fin a) (Fin b) = Fin (a * b)"
| "fl_mul _ _ = NaN"

fun fl_sqrt :: "npfloat \<Rightarrow> npfloat" where
  "fl_sqrt (Fin a) = (if a < 0 then NaN else Fin (sqrt a))"
| "fl_sqrt NaN = NaN"

text \<open>Comparison \<open><\<close> of floats: false as soon as one side is NaN.\<close>

fun fl_less :: "npfloat \<Rightarrow> npfloat \<Rightarrow> bool" where
  "fl_less (Fin a) (Fin b) = (a < b)"
| "fl_less _ _ = False"

fun isnan :: "npfloat \<Rightarrow> bool" where
  "isnan NaN = True"
| "isnan (Fin _) = False"

text \<open>
  One row of an array of shape \<open>(n, 3)\<close>: a position in km. The array
  \<open>np.array(positions)\<close> is the list of its rows; for an empty list numpy builds an
  array of shape \<open>(0,)\<close>, which has one dimension only.
\<close>

type_synonym row = "npfloat \<times> npfloat \<times> npfloat"

definition nan_row :: row where
  "nan_row = (NaN, NaN, NaN)"

fun row_sub :: "row \<Rightarrow> row \<Rightarrow> row" where
  "row_sub (x1, y1, z1) (x2, y2, z2) = (fl_sub x1 x2, fl_sub y1 y2, fl_sub z1 z2)"

text \<open>
  \<open>a - b\<close> on arrays, with numpy's broadcasting: equal shapes subtract row by row; a
  single row is repeated against every row of the other array; any other pair of shapes
  raises ValueError. Shape \<open>(0,)\<close> broadcasts with shape \<open>(0,)\<close> only.
\<close>

definition ndarray_sub :: "row list \<Rightarrow> row list \<Rightarrow> error + row list" where
  "ndarray_sub a b =
     (if length a = length b then Inr (map (\<lambda>(r, s). row_sub r s) (zip a b))
      else case (a, b) of
        ([r], _ # _) \<Rightarrow> Inr (map (\<lambda>s. row_sub r s) b)
      | (_ # _, [s]) \<Rightarrow> Inr (map (\<lambda>r. row_sub r s) a)
      | _ \<Rightarrow> Inl ValueError)"

text \<open>
  \<open>np.linalg.norm(x, axis=1)\<close>: \<open>sqrt(add.reduce((x.conj() * x).real, axis=1))\<close>, the
  Euclidean norm of every row. On the one-dimensional empty array axis 1 does not exist.
\<close>

fun row_norm :: "row \<Rightarrow> npfloat" where
  "row_norm (x, y, z) = fl_sqrt (fl_add (fl_add (fl_mul x x) (fl_mul y y)) (fl_mul z z))"

definition linalg_norm :: "row list \<Rightarrow> error + npfloat list" where
  "linalg_norm x = (if x = [] then Inl AxisError else Inr (map row_norm x))"

subsection \<open>\<open>numpy.nanargmin\<close>\<close>

text \<open>
  numpy replaces every NaN by \<open>+inf\<close>, raises ValueError when the mask of replaced
  entries is non-empty and all true, and returns \<open>argmin\<close> of the replaced array: the
  first index of its least entry. \<open>argmin\<close> of an empty array raises ValueError.
\<close>

datatype ext = Val real | PosInf

fun ext_less :: "ext \<Rightarrow> ext \<Rightarrow> bool" where
  "ext_less (Val a) (Val b) = (a < b)"
| "ext_less (Val a) PosInf = True"
| "ext_less PosInf _ = False"

fun replace_nan :: "npfloat \<Rightarrow> ext" where
  "replace_nan (Fin a) = Val a"
| "replace_nan NaN = PosInf"

text \<open>
  The scan of \<open>argmin\<close>: \<open>i\<close> is the index of the next entry, \<open>bi\<close> and \<open>bv\<close> are the
  best index and value so far; only a strictly smaller entry replaces them.
\<close>

fun argmin_from :: "ext list \<Rightarrow> nat \<Rightarrow> nat \<Rightarrow> ext \<Rightarrow> nat" where
  "argmin_from [] i bi bv = bi"
| "argmin_from (x # xs) i bi bv =
     (if ext_less x bv then argmin_from xs (Suc i) i x else argmin_from xs (Suc i) bi bv)"

definition argmin :: "ext list \<Rightarrow> error + nat" where
  "argmin a = (case a of [] \<Rightarrow> Inl ValueError | x # xs \<Rightarrow> Inr (argmin_from xs 1 0 x))"

definition nanargmin :: "npfloat list \<Rightarrow> error + nat" where
  "nanargmin a =
     (let mask = map isnan a; a' = map replace_nan a
      in if mask \<noteq> [] \<and> list_all id mask then Inl ValueError else argmin a')"

subsection \<open>Closest approach of one pair (the body of the analysis loop)\<close>

text \<open>
  \<^verbatim>\<open>distances = np.linalg.norm(s1['positions'] - s2['positions'], axis=1)\<close>
  \<^verbatim>\<open>min_dist_idx = np.nanargmin(distances)\<close>
  \<^verbatim>\<open>min_dist_km = distances[min_dist_idx]\<close>
\<close>

definition pair_distances :: "row list \<Rightarrow> row list \<Rightarrow> error + npfloat list" where
  "pair_distances p1 p2 =
     (case ndarray_sub p1 p2 of Inl e \<Rightarrow> Inl e | Inr d \<Rightarrow> linalg_norm d)"

text \<open>The second and third line, on the array of distances.\<close>

definition min_dist :: "npfloat list \<Rightarrow> error + nat \<times> npfloat" where
  "min_dist distances =
     (case nanargmin distances of
        Inl e \<Rightarrow> Inl e
      | Inr min_dist_idx \<Rightarrow> Inr (min_dist_idx, distances ! min_dist_idx))"

definition closest_approach :: "row list \<Rightarrow> row list \<Rightarrow> error + nat \<times> npfloat" where
  "closest_approach p1 p2 =
     (case pair_distances p1 p2 of
        Inl e \<Rightarrow> Inl e
      | Inr distances \<Rightarrow> min_dist distances)"

subsection \<open>Python floats\<close>

text \<open>
  An IEEE double is a finite value, an infinity or NaN (the sign of zero is not
  distinguished: no operation of the script depends on it). \<open>round_half_even\<close> is the
  nearest integer, the even one at a tie. \<open>ulp x\<close> is the distance between neighbouring
  doubles at \<open>x\<close>: \<open>2 ^ (e - 52)\<close> for \<open>2 ^ e \<le> \<bar>x\<bar> < 2 ^ (e + 1)\<close>, and \<open>2 ^ (- 1074)\<close>
  in the subnormal range. \<open>round_finite x\<close> is the multiple of \<open>ulp x\<close> nearest to \<open>x\<close>,
  and \<open>round_double x\<close> is the double that an operation with exact result \<open>x\<close> returns.
\<close>

datatype pyfloat = Finite real | PlusInf | MinusInf | Nan

definition round_half_even :: "real \<Rightarrow> int" where
  "round_half_even r =
     (let f = \<lfloor>r\<rfloor>; d = r - of_int f
      in if d < 1 / 2 then f else if 1 / 2 < d then f + 1 else if even f then f else f + 1)"

definition ulp :: "real \<Rightarrow> real" where
  "ulp x = 2 powr of_int (max (\<lfloor>log 2 \<bar>x\<bar>\<rfloor> - 52) (- 1074))"

definition round_finite :: "real \<Rightarrow> real" where
  "round_finite x = (if x = 0 then 0 else of_int (round_half_even (x / ulp x)) * ulp x)"

definition round_double :: "real \<Rightarrow> pyfloat" where
  "round_double x =
     (let y = round_finite x
      in if 2 ^ 1024 \<le> y then PlusInf else if y \<le> - (2 ^ 1024) then MinusInf else Finite y)"

text \<open>\<open>x * 3600\<close>: the int 3600 converts to a float exactly.\<close>

fun times_3600 :: "pyfloat \<Rightarrow> pyfloat" where
  "times_3600 (Finite a) = round_double (a * 3600)"
| "times_3600 PlusInf = PlusInf"
| "times_3600 MinusInf = MinusInf"
| "times_3600 Nan = Nan"

text \<open>
  \<open>x / n\<close> for a float \<open>x\<close> and an int \<open>n\<close>: the int is converted to a float, which raises
  OverflowError when it is too large; a divisor of zero raises ZeroDivisionError,
  whatever \<open>x\<close> is.
\<close>

definition float_div_int :: "pyfloat \<Rightarrow> int \<Rightarrow> error + pyfloat" where
  "float_div_int x n =
     (case round_double (of_int n) of
        Finite d \<Rightarrow>
          if d = 0 then Inl ZeroDivisionError
          else Inr (case x of
                      Finite a \<Rightarrow> round_double (a / d)
                    | PlusInf \<Rightarrow> if 0 < d then PlusInf else MinusInf
                    | MinusInf \<Rightarrow> if 0 < d then MinusInf else PlusInf
                    | Nan \<Rightarrow> Nan)
      | _ \<Rightarrow> Inl OverflowError)"

text \<open>
  Python's \<open>int(x)\<close> on a float: truncation towards zero; ValueError on NaN, OverflowError
  on an infinity.
\<close>

fun py_int :: "pyfloat \<Rightarrow> error + int" where
  "py_int (Finite x) = Inr (if x < 0 then \<lceil>x\<rceil> else \<lfloor>x\<rfloor>)"
| "py_int Nan = Inl ValueError"
| "py_int PlusInf = Inl OverflowError"
| "py_int MinusInf = Inl OverflowError"

subsection \<open>Configuration\<close>

record config =
  NORAD_IDS :: "int list"
  TIME_WINDOW_HOURS :: pyfloat
  TIME_STEP_SECONDS :: int
  COLLISION_THRESHOLD_KM :: real

definition script_config :: config where
  "script_config =
     \<lparr>NORAD_IDS = [25544, 58215], TIME_WINDOW_HOURS = Finite 6,
      TIME_STEP_SECONDS = 60,
      COLLISION_THRESHOLD_KM = 50\<rparr>"

subsection \<open>Time\<close>

type_synonym datetime = int

text \<open>\<open>timedelta(seconds=n)\<close> for an integer \<open>n\<close>, in microseconds.\<close>

definition timedelta :: "int \<Rightarrow> int" where
  "timedelta n = n * 1000000"

text \<open>
  The fields \<open>year, month, day, hour, minute, second\<close> of a datetime, which are all that
  \<open>jday\<close> is given: the whole seconds of the instant. The field \<open>microsecond\<close> is not read.
\<close>

definition calendar_fields :: "datetime \<Rightarrow> int" where
  "calendar_fields t = t div 1000000"

definition microsecond :: "datetime \<Rightarrow> int" where
  "microsecond t = t mod 1000000"

text \<open>
  The instants that a datetime can hold: from 0001-01-01 00:00:00 to 9999-12-31
  23:59:59.999999, that is 3652059 days.
\<close>

definition datetime_max :: int where
  "datetime_max = 3652059 * 86400 * 1000000"

definition in_range :: "datetime \<Rightarrow> bool" where
  "in_range t = (0 \<le> t \<and> t < datetime_max)"

subsection \<open>\<open>propagate_positions\<close>\<close>

text \<open>
  A \<open>Satrec\<close> is used through \<open>satellite.sgp4(jd, fr)\<close> only, with \<open>jd, fr\<close> the Julian
  date that \<open>jday\<close> computes from the six calendar fields: it is a function from the
  calendar fields to the error code and the position.
\<close>

type_synonym satrec = "int \<Rightarrow> int \<times> row"

type_synonym twoline2rv = "string \<Rightarrow> string \<Rightarrow> error + satrec"

text \<open>
  The instant \<open>start_time + timedelta(seconds=i * step_sec)\<close> as a number; the sum raises
  OverflowError in the loop when it is not in the range of datetime (a timedelta too
  large to build raises the same exception, and its sum would be out of range).
\<close>

definition current_time :: "datetime \<Rightarrow> int \<Rightarrow> int \<Rightarrow> datetime" where
  "current_time start_time step_sec i = start_time + timedelta (i * step_sec)"

text \<open>The body of the loop: the sample appended at index \<open>i\<close>.\<close>

definition sample :: "satrec \<Rightarrow> datetime \<Rightarrow> int \<Rightarrow> int \<Rightarrow> row" where
  "sample satellite start_time step_sec i =
     (case satellite (calendar_fields (current_time start_time step_sec i)) of
        (err, position) \<Rightarrow> if err = 0 then position else nan_row)"

function propagate_loop ::
  "satrec \<Rightarrow> datetime \<Rightarrow> int \<Rightarrow> int \<Rightarrow> int \<Rightarrow> row list \<Rightarrow> error + row list" where
  "propagate_loop satellite start_time step_sec num_steps i acc =
     (if i < num_steps
      then if in_range (current_time start_time step_sec i)
           then propagate_loop satellite start_time step_sec num_steps (i + 1)
                  (acc @ [sample satellite start_time step_sec i])
           else Inl OverflowError
      else Inr acc)"
  by pat_completeness auto
termination
  by (relation "measure (\<lambda>(satellite, start_time, step_sec, num_steps, i, acc).
        nat (num_steps - i))") auto

declare propagate_loop.simps [simp del]

text \<open>\<^verbatim>\<open>num_steps = int(hours * 3600 / step_sec)\<close>, after \<open>Satrec.twoline2rv\<close>.\<close>

definition propagate_positions ::
  "twoline2rv \<Rightarrow> string \<Rightarrow> string \<Rightarrow> datetime \<Rightarrow> pyfloat \<Rightarrow> int \<Rightarrow> error + row list" where
  "propagate_positions twoline line1 line2 start_time hours step_sec =
     (case twoline line1 line2 of
        Inl e \<Rightarrow> Inl e
      | Inr satellite \<Rightarrow>
          (case float_div_int (times_3600 hours) step_sec of
             Inl e \<Rightarrow> Inl e
           | Inr q \<Rightarrow>
               (case py_int q of
                  Inl e \<Rightarrow> Inl e
                | Inr num_steps \<Rightarrow>
                    propagate_loop satellite start_time step_sec num_steps 0 [])))"

subsection \<open>\<open>fetch_tle\<close>\<close>

text \<open>
  Text is a list of code points below 256. \<open>str.strip()\<close> removes white space at both
  ends; \<open>str.splitlines()\<close> splits at line boundaries (\<open>\r\n\<close> counts as one) and yields
  no empty last line.
\<close>

definition isspace :: "char \<Rightarrow> bool" where
  "isspace c = (of_char c \<in> {9, 10, 11, 12, 13, 28, 29, 30, 31, 32, 133, 160 :: nat})"

definition is_linebreak :: "char \<Rightarrow> bool" where
  "is_linebreak c = (of_char c \<in> {10, 11, 12, 13, 28, 29, 30, 133 :: nat})"

definition strip :: "string \<Rightarrow> string" where
  "strip s = rev (dropWhile isspace (rev (dropWhile isspace s)))"

fun splitlines_from :: "string \<Rightarrow> string \<Rightarrow> string list" where
  "splitlines_from cur [] = (if cur = [] then [] else [cur])"
| "splitlines_from cur (c # cs) =
     (if of_char c = (13 :: nat) then
        (case cs of
           d # ds \<Rightarrow> if of_char d = (10 :: nat) then cur # splitlines_from [] ds
                     else cur # splitlines_from [] cs
         | [] \<Rightarrow> cur # splitlines_from [] cs)
      else if is_linebreak c then cur # splitlines_from [] cs
      else splitlines_from (cur @ [c]) cs)"

definition splitlines :: "string \<Rightarrow> string list" where
  "splitlines s = splitlines_from [] s"

text \<open>
  What \<open>requests.get\<close> followed by \<open>raise_for_status\<close> gives for an identifier: an
  exception of class RequestException, or the text of the response. Every call is
  appended to a log of the identifiers requested.
\<close>

datatype http_result = RequestException | Body string

type_synonym tle = "string \<times> string \<times> string"

definition fetch_tle :: "(int \<Rightarrow> http_result) \<Rightarrow> int \<Rightarrow> int list \<Rightarrow> tle option \<times> int list" where
  "fetch_tle requests_get norad_id reqs =
     (case requests_get norad_id of
        RequestException \<Rightarrow> (None, reqs @ [norad_id])
      | Body text \<Rightarrow>
          (case splitlines (strip text) of
             l0 # l1 # l2 # _ \<Rightarrow> (Some (strip l0, strip l1, strip l2), reqs @ [norad_id])
           | _ \<Rightarrow> (None, reqs @ [norad_id])))"

subsection \<open>The main script: loading the satellites\<close>

record sat =
  name :: string
  positions :: "row list"

text \<open>
  The dictionary \<open>sats\<close> keeps its keys in the order of their first insertion;
  \<open>sats[k] = v\<close> replaces the value of a key already present.
\<close>

fun dict_set :: "'k \<Rightarrow> 'v \<Rightarrow> ('k \<times> 'v) list \<Rightarrow> ('k \<times> 'v) list" where
  "dict_set k v [] = [(k, v)]"
| "dict_set k v ((k', v') # kvs) =
     (if k = k' then (k, v) # kvs else (k', v') # dict_set k v kvs)"

record env =
  satrec_twoline2rv :: twoline2rv
  requests_get :: "int \<Rightarrow> http_result"

text \<open>
  \<^verbatim>\<open>for nid in NORAD_IDS: tle = fetch_tle(nid); if tle: sats[nid] = {...}\<close>
  The result is the log of requests with either the dictionary or the exception that
  ended the script.
\<close>

fun load_sats ::
  "env \<Rightarrow> config \<Rightarrow> datetime \<Rightarrow> int list \<Rightarrow> (int \<times> sat) list \<Rightarrow> int list
     \<Rightarrow> int list \<times> (error + (int \<times> sat) list)" where
  "load_sats ev cfg start_time [] sats reqs = (reqs, Inr sats)"
| "load_sats ev cfg start_time (nid # rest) sats reqs =
     (case fetch_tle (requests_get ev) nid reqs of
        (None, reqs') \<Rightarrow> load_sats ev cfg start_time rest sats reqs'
      | (Some (nm, line1, line2), reqs') \<Rightarrow>
          (case propagate_positions (satrec_twoline2rv ev) line1 line2 start_time
                  (TIME_WINDOW_HOURS cfg) (TIME_STEP_SECONDS cfg) of
             Inl e \<Rightarrow> (reqs', Inl e)
           | Inr ps \<Rightarrow>
               load_sats ev cfg start_time rest
                 (dict_set nid \<lparr>name = nm, positions = ps\<rparr> sats) reqs'))"

subsection \<open>The main script: collision analysis\<close>

record event =
  s1 :: string
  s2 :: string
  distance :: npfloat
  time_of_approach :: datetime

definition make_event :: "config \<Rightarrow> datetime \<Rightarrow> sat \<Rightarrow> sat \<Rightarrow> nat \<times> npfloat \<Rightarrow> event" where
  "make_event cfg start_time a b r =
     \<lparr>s1 = name a, s2 = name b, distance = snd r,
      time_of_approach = start_time + timedelta (int (fst r) * TIME_STEP_SECONDS cfg)\<rparr>"

text \<open>
  \<^verbatim>\<open>for i in range(len(ids)): for j in range(i + 1, len(ids)): ...\<close>
  The keys of a dictionary are distinct, so \<open>sats[ids[i]]\<close> is the \<open>i\<close>-th value of
  \<open>sats\<close>: the outer loop runs over the values in order, the inner loop over the values
  after the current one. An exception in the body leaves both loops.
\<close>

fun inner_loop ::
  "config \<Rightarrow> datetime \<Rightarrow> sat \<Rightarrow> sat list \<Rightarrow> event list \<Rightarrow> error + event list" where
  "inner_loop cfg start_time a [] closest_events = Inr closest_events"
| "inner_loop cfg start_time a (b # rest) closest_events =
     (case closest_approach (positions a) (positions b) of
        Inl e \<Rightarrow> Inl e
      | Inr r \<Rightarrow>
          inner_loop cfg start_time a rest
            (closest_events @ [make_event cfg start_time a b r]))"

fun outer_loop ::
  "config \<Rightarrow> datetime \<Rightarrow> sat list \<Rightarrow> event list \<Rightarrow> error + event list" where
  "outer_loop cfg start_time [] closest_events = Inr closest_events"
| "outer_loop cfg start_time (a # rest) closest_events =
     (case inner_loop cfg start_time a rest closest_events of
        Inl e \<Rightarrow> Inl e
      | Inr closest_events' \<Rightarrow> outer_loop cfg start_time rest closest_events')"

definition collision_analysis ::
  "config \<Rightarrow> datetime \<Rightarrow> (int \<times> sat) list \<Rightarrow> error + event list" where
  "collision_analysis cfg start_time sats = outer_loop cfg start_time (map snd sats) []"

definition main_script ::
  "env \<Rightarrow> config \<Rightarrow> datetime \<Rightarrow> int list \<times> (error + (int \<times> sat) list \<times> event list)" where
  "main_script ev cfg start_time =
     (case load_sats ev cfg start_time (NORAD_IDS cfg) [] [] of
        (reqs, Inl e) \<Rightarrow> (reqs, Inl e)
      | (reqs, Inr sats) \<Rightarrow>
          (case collision_analysis cfg start_time sats of
             Inl e \<Rightarrow> (reqs, Inl e)
           | Inr closest_events \<Rightarrow> (reqs, Inr (sats, closest_events))))"

subsection \<open>\<open>update_info\<close>\<close>

datatype category = ALERT | SAFE

datatype countdown = EventPassed | TimeLeft int int

record html_p =
  risk :: category
  first_name :: string
  second_name :: string
  shown_distance :: npfloat
  shown_countdown :: countdown

text \<open>
  \<open>time_left\<close> is a timedelta, here in microseconds. \<open>total_seconds()\<close> divides them by
  \<open>10 ** 6\<close> as a float. On a positive float below \<open>2 ^ 53\<close> the operations \<open>// 60\<close> and
  \<open>% 60\<close> are exact (the quotient is an integer, the remainder is that of \<open>fmod\<close>); the
  script shows their values in this case only. \<open>:.2f\<close> prints the multiple of one
  hundredth nearest to the exact value of the float, the even one at a tie.
\<close>

definition total_seconds :: "int \<Rightarrow> real" where
  "total_seconds time_left = round_finite (of_int time_left / 1000000)"

definition format_2f :: "npfloat \<Rightarrow> npfloat" where
  "format_2f d =
     (case d of NaN \<Rightarrow> NaN | Fin x \<Rightarrow> Fin (of_int (round_half_even (x * 100)) / 100))"

definition info_line :: "config \<Rightarrow> datetime \<Rightarrow> event \<Rightarrow> html_p" where
  "info_line cfg now e =
     (let time_left = total_seconds (time_of_approach e - now);
          cd = (if time_left \<le> 0 then EventPassed
                else TimeLeft \<lfloor>time_left / 60\<rfloor>
                       \<lfloor>time_left - 60 * of_int \<lfloor>time_left / 60\<rfloor>\<rfloor>)
      in if fl_less (distance e) (Fin (COLLISION_THRESHOLD_KM cfg))
         then \<lparr>risk = ALERT, first_name = s1 e, second_name = s2 e,
               shown_distance = format_2f (distance e), shown_countdown = cd\<rparr>
         else \<lparr>risk = SAFE, first_name = s1 e, second_name = s2 e,
               shown_distance = format_2f (distance e), shown_countdown = cd\<rparr>)"

definition update_info :: "config \<Rightarrow> datetime \<Rightarrow> event list \<Rightarrow> html_p list" where
  "update_info cfg now closest_events = map (info_line cfg now) closest_events"

subsection \<open>Notions used in the statements\<close>

text \<open>
  A sample is valid when none of its coordinates is NaN; the sampler marks a failed
  propagation by the row of three NaN. The separation of two samples is their Euclidean
  distance, read on their finite coordinates.
\<close>

fun valid :: "row \<Rightarrow> bool" where
  "valid (x, y, z) = (\<not> isnan x \<and> \<not> isnan y \<and> \<not> isnan z)"

fun coord :: "npfloat \<Rightarrow> real" where
  "coord (Fin a) = a"
| "coord NaN = 0"

fun separation :: "row \<Rightarrow> row \<Rightarrow> real" where
  "separation (x1, y1, z1) (x2, y2, z2) =
     sqrt ((coord x1 - coord x2)\<^sup>2 + (coord y1 - coord y2)\<^sup>2 + (coord z1 - coord z2)\<^sup>2)"

text \<open>\<open>r\<close> is the first index of a least entry of \<open>a\<close>.\<close>

definition first_min :: "ext list \<Rightarrow> nat \<Rightarrow> bool" where
  "first_min a r =
     (r < length a \<and> (\<forall>j<length a. \<not> ext_less (a ! j) (a ! r)) \<and> (\<forall>j<r. ext_less (a ! r) (a ! j)))"

text \<open>
  The retrieval of an identifier succeeds when \<open>fetch_tle\<close> returns a tuple. What the main
  script stores for such an identifier: the name with the sampled trajectory.
\<close>

definition fetched :: "(int \<Rightarrow> http_result) \<Rightarrow> int \<Rightarrow> bool" where
  "fetched rg nid = (fst (fetch_tle rg nid []) \<noteq> None)"

definition loaded :: "env \<Rightarrow> config \<Rightarrow> datetime \<Rightarrow> int \<Rightarrow> sat option" where
  "loaded ev cfg start_time nid =
     (case fst (fetch_tle (requests_get ev) nid []) of
        None \<Rightarrow> None
      | Some (nm, line1, line2) \<Rightarrow>
          (case propagate_positions (satrec_twoline2rv ev) line1 line2 start_time
                  (TIME_WINDOW_HOURS cfg) (TIME_STEP_SECONDS cfg) of
             Inl e \<Rightarrow> None
           | Inr ps \<Rightarrow> Some \<lparr>name = nm, positions = ps\<rparr>))"

text \<open>The number of samples of every trajectory sampled with a window and a step.\<close>

definition grid_count :: "pyfloat \<Rightarrow> int \<Rightarrow> nat" where
  "grid_count hours step_sec =
     (case float_div_int (times_3600 hours) step_sec of
        Inl e \<Rightarrow> 0
      | Inr x \<Rightarrow> (case py_int x of Inl e \<Rightarrow> 0 | Inr n \<Rightarrow> nat n))"

text \<open>The pairs \<open>(xs ! i, xs ! j)\<close> with \<open>i < j\<close>, in the order of the two loops.\<close>

fun pairs_of :: "'a list \<Rightarrow> ('a \<times> 'a) list" where
  "pairs_of [] = []"
| "pairs_of (x # xs) = map (Pair x) xs @ pairs_of xs"

subsection \<open>An example run\<close>

text \<open>
  Four identifiers: the request for 1 fails, 3 answers with two lines only, 2 and 4 answer
  with an element set (the first with white space and \<open>\r\n\<close> around the lines). The
  stand-in for sgp4 places a satellite on the x axis at the length of its first line.
\<close>

definition example_env :: env where
  "example_env =
     \<lparr>satrec_twoline2rv =
        (\<lambda>line1 line2. Inr (\<lambda>t. (0, (Fin (real (length line1)), Fin 0, Fin 0)))),
      requests_get =
        (\<lambda>n. if n = 2 then
                 Body (''ISS '' @ [CHR 0x0D, CHR 0x0A] @ ''1 25544U'' @ [CHR 0x0A]
                       @ '' 2 25544'' @ [CHR 0x0A])
               else if n = 3 then Body (''DEBRIS'' @ [CHR 0x0A] @ ''1 99999U'')
               else if n = 4 then
                 Body (''STARLINK'' @ [CHR 0x0A] @ ''1 58215'' @ [CHR 0x0A] @ ''2 58215'')
               else RequestException)\<rparr>"

definition example_config :: config where
  "example_config =
     \<lparr>NORAD_IDS = [1, 2, 3, 4], TIME_WINDOW_HOURS = Finite (1 / 32),
      TIME_STEP_SECONDS = 60,
      COLLISION_THRESHOLD_KM = 50\<rparr>"

section \<open>Properties\<close>

subsection \<open>The scan of \<open>argmin\<close> and \<open>nanargmin\<close>\<close>

lemma ext_less_irrefl: "\<not> ext_less x x"
  by (cases x) simp_all

lemma ext_less_trans: "ext_less x y \<Longrightarrow> ext_less y z \<Longrightarrow> ext_less x z"
  by (cases x; cases y; cases z) simp_all

lemma ext_less_le_trans: "ext_less x y \<Longrightarrow> \<not> ext_less z y \<Longrightarrow> ext_less x z"
  by (cases x; cases y; cases z) simp_all

lemma argmin_from_first_min:
  "first_min pre bi \<Longrightarrow> i = length pre \<Longrightarrow> bv = pre ! bi \<Longrightarrow>
   first_min (pre @ xs) (argmin_from xs i bi bv)"
proof (induction xs arbitrary: pre i bi bv)
  case Nil
  then show ?case by simp
next
  case (Cons x xs)
  have bi: "bi < length pre" using Cons.prems(1) by (simp add: first_min_def)
  show ?case
  proof (cases "ext_less x bv")
    case True
    have "first_min (pre @ [x]) i"
      unfolding first_min_def
    proof (intro conjI allI impI)
      show "i < length (pre @ [x])" using Cons.prems(2) by simp
    next
      fix j assume "j < length (pre @ [x])"
      then consider "j < length pre" | "j = length pre" by fastforce
      then show "\<not> ext_less ((pre @ [x]) ! j) ((pre @ [x]) ! i)"
      proof cases
        case 1
        then have "\<not> ext_less (pre ! j) bv"
          using Cons.prems(1,3) by (simp add: first_min_def)
        with True have "\<not> ext_less (pre ! j) x"
          using ext_less_trans by blast
        then show ?thesis using 1 Cons.prems(2) by (simp add: nth_append)
      next
        case 2
        then show ?thesis using Cons.prems(2) by (simp add: ext_less_irrefl)
      qed
    next
      fix j assume "j < i"
      then have j: "j < length pre" using Cons.prems(2) by simp
      then have "\<not> ext_less (pre ! j) bv"
        using Cons.prems(1,3) by (simp add: first_min_def)
      with True have "ext_less x (pre ! j)"
        using ext_less_le_trans by blast
      then show "ext_less ((pre @ [x]) ! i) ((pre @ [x]) ! j)"
        using j Cons.prems(2) by (simp add: nth_append)
    qed
    then have "first_min ((pre @ [x]) @ xs) (argmin_from xs (Suc i) i x)"
      by (rule Cons.IH) (use Cons.prems(2) in simp_all)
    with True show ?thesis by simp
  next
    case False
    have "first_min (pre @ [x]) bi"
      unfolding first_min_def
    proof (intro conjI allI impI)
      show "bi < length (pre @ [x])" using bi by simp
    next
      fix j assume "j < length (pre @ [x])"
      then consider "j < length pre" | "j = length pre" by fastforce
      then show "\<not> ext_less ((pre @ [x]) ! j) ((pre @ [x]) ! bi)"
      proof cases
        case 1
        then show ?thesis
          using Cons.prems(1) bi by (simp add: first_min_def nth_append)
      next
        case 2
        then show ?thesis using False bi Cons.prems(3) by (simp add: nth_append)
      qed
    next
      fix j assume "j < bi"
      then show "ext_less ((pre @ [x]) ! bi) ((pre @ [x]) ! j)"
        using Cons.prems(1) bi by (simp add: first_min_def nth_append)
    qed
    then have "first_min ((pre @ [x]) @ xs) (argmin_from xs (Suc i) bi (pre ! bi))"
      by (rule Cons.IH) (use Cons.prems(2) bi in \<open>simp_all add: nth_append\<close>)
    with False Cons.prems(3) show ?thesis by simp
  qed
qed

lemma argmin_first_min: "a \<noteq> [] \<Longrightarrow> \<exists>r. argmin a = Inr r \<and> first_min a r"
proof (cases a)
  case Nil
  assume "a \<noteq> []" with Nil show ?thesis by simp
next
  case (Cons x xs)
  have "first_min [x] 0" by (simp add: first_min_def ext_less_irrefl)
  then have "first_min ([x] @ xs) (argmin_from xs 1 0 x)"
    by (rule argmin_from_first_min) simp_all
  with Cons show ?thesis by (simp add: argmin_def)
qed

lemma nanargmin_error:
  "(\<forall>j<length ds. ds ! j = NaN) \<Longrightarrow> nanargmin ds = Inl ValueError"
proof (cases ds)
  case Nil
  then show ?thesis by (simp add: nanargmin_def argmin_def)
next
  case (Cons d ds')
  assume all: "\<forall>j<length ds. ds ! j = NaN"
  have "list_all id (map isnan ds)"
    unfolding list_all_length using all by simp
  with Cons show ?thesis by (simp add: nanargmin_def)
qed

lemma nanargmin_first_min:
  assumes "k < length ds" "ds ! k = Fin v"
  shows "\<exists>r d. nanargmin ds = Inr r \<and> r < length ds \<and> ds ! r = Fin d
           \<and> (\<forall>j<length ds. \<forall>e. ds ! j = Fin e \<longrightarrow> d \<le> e)
           \<and> (\<forall>j<r. \<forall>e. ds ! j = Fin e \<longrightarrow> d < e)"
proof -
  let ?a = "map replace_nan ds"
  have ne: "ds \<noteq> []" using assms(1) by auto
  have "\<not> list_all id (map isnan ds)"
    unfolding list_all_length using assms by auto
  then have nan: "nanargmin ds = argmin ?a"
    by (simp add: nanargmin_def)
  from ne obtain r where r: "argmin ?a = Inr r" "first_min ?a r"
    using argmin_first_min [of ?a] by auto
  have rl: "r < length ds" using r(2) by (simp add: first_min_def)
  have "\<not> ext_less (?a ! k) (?a ! r)"
    using r(2) assms(1) rl by (simp add: first_min_def)
  then have "\<not> ext_less (Val v) (replace_nan (ds ! r))"
    using assms rl by simp
  then obtain d where d: "ds ! r = Fin d"
    by (cases "ds ! r") simp_all
  have min: "d \<le> e" if "j < length ds" "ds ! j = Fin e" for j e
  proof -
    have "\<not> ext_less (?a ! j) (?a ! r)"
      using r(2) that(1) rl by (simp add: first_min_def)
    then show ?thesis using that rl d by simp
  qed
  have first: "d < e" if "j < r" "ds ! j = Fin e" for j e
  proof -
    have "ext_less (?a ! r) (?a ! j)"
      using r(2) that(1) rl by (simp add: first_min_def)
    then show ?thesis using that rl d by simp
  qed
  show ?thesis using nan r(1) rl d min first by auto
qed

subsection \<open>Distances of a pair of trajectories on the same grid\<close>

lemma row_distance:
  "row_norm (row_sub r s) = (if valid r \<and> valid s then Fin (separation r s) else NaN)"
proof -
  obtain x1 y1 z1 where r: "r = (x1, y1, z1)" by (cases r)
  obtain x2 y2 z2 where s: "s = (x2, y2, z2)" by (cases s)
  show ?thesis
    unfolding r s
    by (cases x1; cases y1; cases z1; cases x2; cases y2; cases z2)
       (simp_all add: power2_eq_square not_less add_nonneg_nonneg)
qed

lemma pair_distances_same_length:
  assumes "length p1 = length p2" "p1 \<noteq> []"
  shows "pair_distances p1 p2 = Inr (map (\<lambda>(r, s). row_norm (row_sub r s)) (zip p1 p2))"
proof -
  have "p2 \<noteq> []" using assms by auto
  then show ?thesis
    using assms by (auto simp add: pair_distances_def ndarray_sub_def linalg_norm_def)
qed

lemma distances_nth:
  assumes "length p1 = length p2" "j < length p1"
  shows "map (\<lambda>(r, s). row_norm (row_sub r s)) (zip p1 p2) ! j =
           (if valid (p1 ! j) \<and> valid (p2 ! j) then Fin (separation (p1 ! j) (p2 ! j)) else NaN)"
  using assms by (simp add: row_distance)

lemma closest_approach_spec:
  assumes len: "length p1 = length p2"
    and i: "i < length p1" "valid (p1 ! i)" "valid (p2 ! i)"
  shows "\<exists>k. closest_approach p1 p2 = Inr (k, Fin (separation (p1 ! k) (p2 ! k)))
           \<and> k < length p1 \<and> valid (p1 ! k) \<and> valid (p2 ! k)
           \<and> (\<forall>j<length p1. valid (p1 ! j) \<and> valid (p2 ! j) \<longrightarrow>
                 separation (p1 ! k) (p2 ! k) \<le> separation (p1 ! j) (p2 ! j))
           \<and> (\<forall>j<k. valid (p1 ! j) \<and> valid (p2 ! j) \<longrightarrow>
                 separation (p1 ! k) (p2 ! k) < separation (p1 ! j) (p2 ! j))"
proof -
  define ds where "ds = map (\<lambda>(r, s). row_norm (row_sub r s)) (zip p1 p2)"
  have ne: "p1 \<noteq> []" using i(1) by auto
  have pd: "pair_distances p1 p2 = Inr ds"
    unfolding ds_def using len ne by (rule pair_distances_same_length)
  have lds: "length ds = length p1" using len by (simp add: ds_def)
  have nth: "ds ! j = (if valid (p1 ! j) \<and> valid (p2 ! j)
                       then Fin (separation (p1 ! j) (p2 ! j)) else NaN)"
    if "j < length p1" for j
    unfolding ds_def using len that by (rule distances_nth)
  have il: "i < length ds" using i(1) lds by simp
  have di: "ds ! i = Fin (separation (p1 ! i) (p2 ! i))"
    using nth [OF i(1)] i(2,3) by simp
  obtain r d where r: "nanargmin ds = Inr r" "r < length ds" "ds ! r = Fin d"
    and rmin: "\<And>j e. j < length ds \<Longrightarrow> ds ! j = Fin e \<Longrightarrow> d \<le> e"
    and rfirst: "\<And>j e. j < r \<Longrightarrow> ds ! j = Fin e \<Longrightarrow> d < e"
    using nanargmin_first_min [OF il di] by blast
  have rl: "r < length p1" using r(2) lds by simp
  have vr: "valid (p1 ! r) \<and> valid (p2 ! r)" and dr: "d = separation (p1 ! r) (p2 ! r)"
    using nth [OF rl] r(3) by (simp_all split: if_splits)
  have ca: "closest_approach p1 p2 = Inr (r, Fin (separation (p1 ! r) (p2 ! r)))"
    using pd r(1,3) dr by (simp add: closest_approach_def min_dist_def)
  have m: "separation (p1 ! r) (p2 ! r) \<le> separation (p1 ! j) (p2 ! j)"
    if "j < length p1" "valid (p1 ! j) \<and> valid (p2 ! j)" for j
  proof -
    have "ds ! j = Fin (separation (p1 ! j) (p2 ! j))" using nth [OF that(1)] that(2) by simp
    moreover have "j < length ds" using that(1) lds by simp
    ultimately have "d \<le> separation (p1 ! j) (p2 ! j)" using rmin by blast
    then show ?thesis using dr by simp
  qed
  have f: "separation (p1 ! r) (p2 ! r) < separation (p1 ! j) (p2 ! j)"
    if "j < r" "valid (p1 ! j) \<and> valid (p2 ! j)" for j
  proof -
    have jl: "j < length p1" using that(1) rl by simp
    have "ds ! j = Fin (separation (p1 ! j) (p2 ! j))" using nth [OF jl] that(2) by simp
    then have "d < separation (p1 ! j) (p2 ! j)" using rfirst that(1) by blast
    then show ?thesis using dr by simp
  qed
  show ?thesis
  proof (intro exI conjI allI impI)
    show "closest_approach p1 p2 = Inr (r, Fin (separation (p1 ! r) (p2 ! r)))" by (rule ca)
    show "r < length p1" by (rule rl)
    show "valid (p1 ! r)" "valid (p2 ! r)" using vr by simp_all
  next
    fix j assume "j < length p1" "valid (p1 ! j) \<and> valid (p2 ! j)"
    then show "separation (p1 ! r) (p2 ! r) \<le> separation (p1 ! j) (p2 ! j)" by (rule m)
  next
    fix j assume "j < r" "valid (p1 ! j) \<and> valid (p2 ! j)"
    then show "separation (p1 ! r) (p2 ! r) < separation (p1 ! j) (p2 ! j)" by (rule f)
  qed
qed

lemma closest_approach_no_overlap:
  assumes len: "length p1 = length p2" and ne: "p1 \<noteq> []"
    and none: "\<forall>j<length p1. \<not> (valid (p1 ! j) \<and> valid (p2 ! j))"
  shows "closest_approach p1 p2 = Inl ValueError"
proof -
  let ?ds = "map (\<lambda>(r, s). row_norm (row_sub r s)) (zip p1 p2)"
  have pd: "pair_distances p1 p2 = Inr ?ds"
    using len ne by (rule pair_distances_same_length)
  have "\<forall>j<length ?ds. ?ds ! j = NaN"
    using len none by (auto simp add: row_distance)
  then have "nanargmin ?ds = Inl ValueError" by (rule nanargmin_error)
  with pd show ?thesis by (simp add: closest_approach_def min_dist_def)
qed

subsection \<open>The analysis loops and exceptions\<close>

text \<open>
  The loops end with an exception exactly when the body raises one for some pair, and
  then with the exception that the body raises for one of the pairs.
\<close>

lemma inner_loop_abort:
  "b \<in> set rest \<Longrightarrow> closest_approach (positions a) (positions b) = Inl e \<Longrightarrow>
   \<exists>e'. inner_loop cfg st a rest evs = Inl e'"
proof (induction rest arbitrary: evs)
  case Nil
  then show ?case by simp
next
  case (Cons c rest)
  show ?case
  proof (cases "closest_approach (positions a) (positions c)")
    case (Inl e')
    then show ?thesis by simp
  next
    case (Inr r)
    with Cons.prems have "b \<in> set rest" by auto
    then show ?thesis using Cons.IH Cons.prems(2) Inr by simp
  qed
qed

lemma inner_loop_Inl:
  "inner_loop cfg st a rest evs = Inl e \<Longrightarrow>
   \<exists>b\<in>set rest. closest_approach (positions a) (positions b) = Inl e"
proof (induction rest arbitrary: evs)
  case Nil
  then show ?case by simp
next
  case (Cons c rest)
  show ?case
  proof (cases "closest_approach (positions a) (positions c)")
    case (Inl e')
    with Cons.prems show ?thesis by simp
  next
    case (Inr r)
    with Cons.prems Cons.IH show ?thesis by auto
  qed
qed

lemma outer_loop_abort:
  "i < j \<Longrightarrow> j < length xs \<Longrightarrow>
   closest_approach (positions (xs ! i)) (positions (xs ! j)) = Inl e \<Longrightarrow>
   \<exists>e'. outer_loop cfg st xs evs = Inl e'"
proof (induction xs arbitrary: i j evs)
  case Nil
  then show ?case by simp
next
  case (Cons a rest)
  show ?case
  proof (cases "inner_loop cfg st a rest evs")
    case (Inl e')
    then show ?thesis by simp
  next
    case (Inr evs')
    have "i \<noteq> 0"
    proof
      assume "i = 0"
      with Cons.prems have "rest ! (j - 1) \<in> set rest"
        and "closest_approach (positions a) (positions (rest ! (j - 1))) = Inl e"
        by auto
      then have "\<exists>e'. inner_loop cfg st a rest evs = Inl e'" by (rule inner_loop_abort)
      with Inr show False by simp
    qed
    then obtain i' j' where ij: "i = Suc i'" "j = Suc j'"
      using Cons.prems(1) by (cases i; cases j) auto
    with Cons.prems have "i' < j'" "j' < length rest"
      "closest_approach (positions (rest ! i')) (positions (rest ! j')) = Inl e"
      by auto
    then have "\<exists>e'. outer_loop cfg st rest evs' = Inl e'" by (rule Cons.IH)
    with Inr show ?thesis by simp
  qed
qed

lemma outer_loop_Inl:
  "outer_loop cfg st xs evs = Inl e \<Longrightarrow>
   \<exists>i j. i < j \<and> j < length xs
     \<and> closest_approach (positions (xs ! i)) (positions (xs ! j)) = Inl e"
proof (induction xs arbitrary: evs)
  case Nil
  then show ?case by simp
next
  case (Cons a rest)
  show ?case
  proof (cases "inner_loop cfg st a rest evs")
    case (Inl e')
    with Cons.prems have "e' = e" by simp
    with Inl obtain b where "b \<in> set rest"
      "closest_approach (positions a) (positions b) = Inl e"
      using inner_loop_Inl by blast
    then obtain k where "k < length rest" "rest ! k = b" by (auto simp: in_set_conv_nth)
    with \<open>closest_approach (positions a) (positions b) = Inl e\<close>
    have "0 < Suc k \<and> Suc k < length (a # rest)
      \<and> closest_approach (positions ((a # rest) ! 0)) (positions ((a # rest) ! Suc k)) = Inl e"
      by simp
    then show ?thesis by blast
  next
    case (Inr evs')
    with Cons.prems have "outer_loop cfg st rest evs' = Inl e" by simp
    then obtain i j where "i < j" "j < length rest"
      "closest_approach (positions (rest ! i)) (positions (rest ! j)) = Inl e"
      using Cons.IH by blast
    then have "Suc i < Suc j \<and> Suc j < length (a # rest)
      \<and> closest_approach (positions ((a # rest) ! Suc i)) (positions ((a # rest) ! Suc j)) = Inl e"
      by simp
    then show ?thesis by blast
  qed
qed

lemma closest_approach_shape_error:
  assumes "length p1 \<noteq> length p2" "length p1 \<noteq> 1" "length p2 \<noteq> 1"
  shows "closest_approach p1 p2 = Inl ValueError"
proof -
  have "ndarray_sub p1 p2 = Inl ValueError"
    using assms by (auto simp: ndarray_sub_def split: list.splits)
  then show ?thesis by (simp add: closest_approach_def min_dist_def pair_distances_def)
qed

lemma closest_approach_same_length_error:
  assumes "length p1 = length p2" "p1 \<noteq> []" "closest_approach p1 p2 = Inl e"
  shows "e = ValueError"
proof (cases "\<exists>i<length p1. valid (p1 ! i) \<and> valid (p2 ! i)")
  case True
  then obtain i where "i < length p1" "valid (p1 ! i)" "valid (p2 ! i)" by blast
  then have "\<exists>k. closest_approach p1 p2 = Inr (k, Fin (separation (p1 ! k) (p2 ! k)))"
    using closest_approach_spec [OF assms(1)] by blast
  with assms(3) show ?thesis by simp
next
  case False
  then have "closest_approach p1 p2 = Inl ValueError"
    using assms(1,2) by (intro closest_approach_no_overlap) auto
  with assms(3) show ?thesis by simp
qed

subsection \<open>Rounding to a double\<close>

text \<open>
  The rounded value lies between the floor and the ceiling, so rounding keeps the sign; in
  a binade below \<open>2 ^ 53\<close> it is computed on integers; a non-zero int never rounds to zero.
\<close>

lemma round_half_even_bounds: "\<lfloor>r\<rfloor> \<le> round_half_even r \<and> round_half_even r \<le> \<lceil>r\<rceil>"
proof -
  have "\<lceil>r\<rceil> = \<lfloor>r\<rfloor> + 1" if "r - of_int \<lfloor>r\<rfloor> \<noteq> 0"
    using that by (simp add: ceiling_altdef)
  moreover have "r - of_int \<lfloor>r\<rfloor> < 1 / 2" if "r - of_int \<lfloor>r\<rfloor> = 0"
    using that by simp
  ultimately show ?thesis
    by (auto simp: round_half_even_def Let_def)
qed

lemma round_half_even_of_int: "round_half_even (of_int m) = m"
  by (simp add: round_half_even_def)

lemma ulp_pos: "0 < ulp x"
  by (simp add: ulp_def)

lemma round_finite_nonneg: "0 \<le> x \<Longrightarrow> 0 \<le> round_finite x"
proof -
  assume x: "0 \<le> x"
  have "0 \<le> x / ulp x" using x ulp_pos [of x] by simp
  then have "0 \<le> \<lfloor>x / ulp x\<rfloor>" by simp
  then have "0 \<le> round_half_even (x / ulp x)"
    using round_half_even_bounds [of "x / ulp x"] by linarith
  then show ?thesis using ulp_pos [of x] by (simp add: round_finite_def)
qed

lemma round_finite_nonpos: "x \<le> 0 \<Longrightarrow> round_finite x \<le> 0"
proof -
  assume x: "x \<le> 0"
  have "x / ulp x \<le> 0" using x ulp_pos [of x] by (simp add: divide_le_0_iff)
  then have "\<lceil>x / ulp x\<rceil> \<le> 0" by (simp add: ceiling_le_zero)
  then have "round_half_even (x / ulp x) \<le> 0"
    using round_half_even_bounds [of "x / ulp x"] by linarith
  then show ?thesis
    using ulp_pos [of x] by (simp add: round_finite_def mult_le_0_iff)
qed

lemma ulp_binade:
  assumes "2 ^ n \<le> \<bar>x\<bar>" and "\<bar>x\<bar> < 2 ^ Suc n" and "n \<le> 52"
  shows "ulp x = 1 / 2 ^ (52 - n)"
proof -
  have pos: "0 < \<bar>x\<bar>" using assms(1) by (smt (verit) zero_less_power)
  have "2 powr real_of_int (int n) \<le> \<bar>x\<bar> \<and> \<bar>x\<bar> < 2 powr real_of_int (int n + 1)"
    using assms(1,2) by (simp add: powr_realpow powr_add)
  then have "\<lfloor>log 2 \<bar>x\<bar>\<rfloor> = int n"
    using floor_log_eq_powr_iff [of "\<bar>x\<bar>" 2 "int n"] pos by simp
  then have "ulp x = 2 powr of_int (int n - 52)"
    using assms(3) by (simp add: ulp_def)
  also have "\<dots> = 2 powr (- real (52 - n))"
    using assms(3) by (simp add: of_nat_diff)
  also have "\<dots> = 1 / 2 ^ (52 - n)"
    by (simp add: powr_minus powr_realpow divide_simps)
  finally show ?thesis .
qed

lemma round_finite_binade:
  assumes "2 ^ n \<le> \<bar>x\<bar>" and "\<bar>x\<bar> < 2 ^ Suc n" and "n \<le> 52"
  shows "round_finite x = of_int (round_half_even (x * 2 ^ (52 - n))) / 2 ^ (52 - n)"
proof -
  have "x \<noteq> 0" using assms(1) by (smt (verit) zero_less_power)
  then show ?thesis
    by (simp add: round_finite_def ulp_binade [OF assms])
qed

lemma round_double_cases:
  "round_double x = Finite (round_finite x) \<or> round_double x = PlusInf \<and> 0 < round_finite x
   \<or> round_double x = MinusInf \<and> round_finite x < 0"
proof -
  have "(0::real) < 2 ^ 1024" by simp
  then show ?thesis
    unfolding round_double_def Let_def by (smt (verit))
qed

lemma round_double_Finite: "round_double x = Finite y \<Longrightarrow> y = round_finite x"
  using round_double_cases [of x] by auto

lemma round_double_zero: "round_double 0 = Finite 0"
  by (simp add: round_double_def round_finite_def)

lemma round_finite_binade_bound:
  assumes "2 ^ n \<le> \<bar>x\<bar>" and "\<bar>x\<bar> < 2 ^ Suc n" and "n \<le> 52"
  shows "\<bar>round_finite x\<bar> < 2 ^ 1024"
proof -
  let ?k = "(2::real) ^ (52 - n)"
  let ?r = "x * ?k"
  have k: "1 \<le> ?k" by simp
  have rf: "round_finite x = of_int (round_half_even ?r) / ?k"
    using assms by (rule round_finite_binade)
  have "\<bar>real_of_int (round_half_even ?r)\<bar> \<le> \<bar>?r\<bar> + 1"
    using round_half_even_bounds [of ?r] by linarith
  then have "\<bar>round_finite x\<bar> \<le> (\<bar>?r\<bar> + 1) / ?k"
    unfolding rf by (simp add: divide_right_mono)
  also have "\<dots> = \<bar>x\<bar> + 1 / ?k"
    by (simp add: abs_mult add_divide_distrib)
  also have "\<dots> \<le> \<bar>x\<bar> + 1" using k by (simp add: divide_le_eq_1)
  also have "\<dots> < 2 ^ Suc n + 1" using assms(2) by simp
  also have "\<dots> \<le> 2 ^ 53 + (1::real)"
    using assms(3) power_increasing [of "Suc n" 53 "2::real"] by simp
  also have "\<dots> < 2 ^ 1024"
  proof -
    have "(2::real) ^ 53 + 1 < 2 ^ 54" by simp
    also have "\<dots> \<le> 2 ^ 1024" by (rule power_increasing) simp_all
    finally show ?thesis .
  qed
  finally show ?thesis .
qed

lemma round_double_binade:
  assumes "2 ^ n \<le> \<bar>x\<bar>" and "\<bar>x\<bar> < 2 ^ Suc n" and "n \<le> 52"
  shows "round_double x = Finite (of_int (round_half_even (x * 2 ^ (52 - n))) / 2 ^ (52 - n))"
proof -
  have "\<bar>round_finite x\<bar> < 2 ^ 1024" using assms by (rule round_finite_binade_bound)
  then have "round_double x = Finite (round_finite x)"
    unfolding round_double_def Let_def by (smt (verit))
  then show ?thesis using round_finite_binade [OF assms] by simp
qed

lemma round_finite_int_nonzero:
  assumes "n \<noteq> 0"
  shows "round_finite (real_of_int n) \<noteq> 0"
proof -
  let ?x = "real_of_int n"
  have x1: "1 \<le> \<bar>?x\<bar>" using assms by (simp flip: of_int_abs)
  then have l: "0 \<le> \<lfloor>log 2 \<bar>?x\<bar>\<rfloor>" by simp
  have "ulp ?x \<le> 2 powr of_int \<lfloor>log 2 \<bar>?x\<bar>\<rfloor>"
    unfolding ulp_def using l by (intro powr_mono) simp_all
  also have "\<dots> \<le> 2 powr log 2 \<bar>?x\<bar>" by (intro powr_mono) simp_all
  also have "\<dots> = \<bar>?x\<bar>" using x1 by simp
  finally have u: "ulp ?x \<le> \<bar>?x\<bar>" .
  have "1 \<le> \<bar>?x\<bar> / ulp ?x" using u ulp_pos [of ?x] by (simp add: le_divide_eq)
  then have "1 \<le> \<bar>?x / ulp ?x\<bar>" using ulp_pos [of ?x] by simp
  then have "1 \<le> \<lfloor>?x / ulp ?x\<rfloor> \<or> \<lceil>?x / ulp ?x\<rceil> \<le> - 1"
    by (cases "0 \<le> ?x / ulp ?x") (simp_all add: le_floor_iff ceiling_le_iff)
  then have "round_half_even (?x / ulp ?x) \<noteq> 0"
    using round_half_even_bounds [of "?x / ulp ?x"] by linarith
  then show ?thesis using assms ulp_pos [of ?x] by (simp add: round_finite_def)
qed

lemma float_div_int_error:
  "float_div_int x n = Inl e \<Longrightarrow> (e = ZeroDivisionError \<and> n = 0) \<or> e = OverflowError"
proof -
  assume a: "float_div_int x n = Inl e"
  show ?thesis
  proof (cases "round_double (of_int n)")
    case (Finite d)
    with a have d: "d = 0" and e: "e = ZeroDivisionError"
      by (auto simp: float_div_int_def split: if_splits)
    from Finite d have "round_finite (real_of_int n) = 0"
      using round_double_Finite by fastforce
    then have "n = 0" using round_finite_int_nonzero by blast
    with e show ?thesis by simp
  qed (use a in \<open>auto simp: float_div_int_def\<close>)
qed

lemma float_div_int_zero: "float_div_int x 0 = Inl ZeroDivisionError"
  by (simp add: float_div_int_def round_double_zero)

lemma float_quotient_sign:
  assumes "float_div_int (times_3600 (Finite h)) n = Inr (Finite q)"
  shows "(0 \<le> h \<and> 0 < n \<longrightarrow> 0 \<le> q) \<and> (h \<le> 0 \<and> 0 < n \<longrightarrow> q \<le> 0)
         \<and> (0 \<le> h \<and> n < 0 \<longrightarrow> q \<le> 0)"
proof -
  obtain d where d: "round_double (of_int n) = Finite d" "d \<noteq> 0"
    using assms by (auto simp: float_div_int_def split: pyfloat.splits if_splits)
  then have dr: "d = round_finite (of_int n)" using round_double_Finite by blast
  obtain p where p: "round_double (h * 3600) = Finite p"
    using assms d by (cases "round_double (h * 3600)")
      (auto simp: float_div_int_def split: if_splits)
  then have pr: "p = round_finite (h * 3600)" using round_double_Finite by blast
  have "round_double (p / d) = Finite q"
    using assms d p by (simp add: float_div_int_def)
  then have q: "q = round_finite (p / d)" using round_double_Finite by blast
  have dpos: "0 \<le> d" if "0 < n" using that dr round_finite_nonneg [of "of_int n"] by simp
  have dneg: "d \<le> 0" if "n < 0" using that dr round_finite_nonpos [of "of_int n"] by simp
  have ppos: "0 \<le> p" if "0 \<le> h" using that pr round_finite_nonneg [of "h * 3600"] by simp
  have pneg: "p \<le> 0" if "h \<le> 0" using that pr round_finite_nonpos [of "h * 3600"]
    by (simp add: mult_le_0_iff)
  show ?thesis
  proof (intro conjI impI)
    assume "0 \<le> h \<and> 0 < n"
    then have "0 \<le> p / d" using ppos dpos by simp
    then show "0 \<le> q" unfolding q by (rule round_finite_nonneg)
  next
    assume "h \<le> 0 \<and> 0 < n"
    then have "p / d \<le> 0" using pneg dpos by (simp add: divide_le_0_iff)
    then show "q \<le> 0" unfolding q by (rule round_finite_nonpos)
  next
    assume "0 \<le> h \<and> n < 0"
    then have "p / d \<le> 0" using ppos dneg by (simp add: divide_le_0_iff)
    then show "q \<le> 0" unfolding q by (rule round_finite_nonpos)
  qed
qed

subsection \<open>The sampling loop\<close>

text \<open>
  The loop appends the samples of the indices from \<open>i\<close> up to \<open>num_steps - 1\<close>, unless one
  of their instants is out of the range of datetime.
\<close>

lemma propagate_loop_eq:
  "propagate_loop satellite start_time step_sec num_steps i acc =
     (if \<forall>j. i \<le> j \<and> j < num_steps \<longrightarrow> in_range (current_time start_time step_sec j)
      then Inr (acc @ map (sample satellite start_time step_sec) [i..num_steps - 1])
      else Inl OverflowError)"
proof (induction satellite start_time step_sec num_steps i acc rule: propagate_loop.induct)
  case (1 satellite start_time step_sec num_steps i acc)
  show ?case
  proof (cases "i < num_steps")
    case False
    then show ?thesis by (subst propagate_loop.simps) simp
  next
    case True
    show ?thesis
    proof (cases "in_range (current_time start_time step_sec i)")
      case False
      with True show ?thesis by (subst propagate_loop.simps) auto
    next
      case r: True
      have u: "[i..num_steps - 1] = i # [i + 1..num_steps - 1]"
        using True by (simp add: upto_rec1)
      have a: "(\<forall>j. i \<le> j \<and> j < num_steps \<longrightarrow> in_range (current_time start_time step_sec j))
          = (\<forall>j. i + 1 \<le> j \<and> j < num_steps \<longrightarrow> in_range (current_time start_time step_sec j))"
      proof
        assume "\<forall>j. i \<le> j \<and> j < num_steps \<longrightarrow> in_range (current_time start_time step_sec j)"
        then show "\<forall>j. i + 1 \<le> j \<and> j < num_steps \<longrightarrow>
            in_range (current_time start_time step_sec j)"
          by simp
      next
        assume h: "\<forall>j. i + 1 \<le> j \<and> j < num_steps \<longrightarrow>
            in_range (current_time start_time step_sec j)"
        show "\<forall>j. i \<le> j \<and> j < num_steps \<longrightarrow> in_range (current_time start_time step_sec j)"
        proof (intro allI impI)
          fix j assume j: "i \<le> j \<and> j < num_steps"
          show "in_range (current_time start_time step_sec j)"
          proof (cases "j = i")
            case True
            with r show ?thesis by simp
          next
            case False
            with j have "i + 1 \<le> j \<and> j < num_steps" by simp
            with h show ?thesis by blast
          qed
        qed
      qed
      show ?thesis
        using True r "1.IH" by (subst propagate_loop.simps) (simp add: u a)
    qed
  qed
qed

lemma nan_row_invalid: "\<not> valid nan_row"
  by (simp add: nan_row_def)

lemma grid_in_range:
  assumes "0 < step_sec" and "in_range start_time"
    and "current_time start_time step_sec (n - 1) < datetime_max"
    and "0 \<le> j" and "j < n"
  shows "in_range (current_time start_time step_sec j)"
proof -
  have "j * step_sec \<le> (n - 1) * step_sec"
    using assms(1,5) by (intro mult_right_mono) simp_all
  then have "current_time start_time step_sec j \<le> current_time start_time step_sec (n - 1)"
    by (simp add: current_time_def timedelta_def)
  moreover have "0 \<le> j * step_sec" using assms(1,4) by simp
  then have "start_time \<le> current_time start_time step_sec j"
    by (simp add: current_time_def timedelta_def)
  ultimately show ?thesis using assms(2,3) by (simp add: in_range_def)
qed

lemma propagate_positions_ok:
  assumes "twoline line1 line2 = Inr satellite"
  shows "propagate_positions twoline line1 line2 start_time hours step_sec =
     (case float_div_int (times_3600 hours) step_sec of
        Inl e \<Rightarrow> Inl e
      | Inr x \<Rightarrow>
          (case py_int x of
             Inl e \<Rightarrow> Inl e
           | Inr n \<Rightarrow>
               if \<forall>j. 0 \<le> j \<and> j < n \<longrightarrow> in_range (current_time start_time step_sec j)
               then Inr (map (sample satellite start_time step_sec) [0..n - 1])
               else Inl OverflowError))"
  unfolding propagate_positions_def assms
  by (auto simp: propagate_loop_eq split: sum.splits)

subsection \<open>Loading the satellites\<close>

text \<open>
  \<open>fetch_tle\<close> appends one request to the log and its result does not depend on the log;
  the loading loop skips the identifiers whose retrieval fails.
\<close>

lemma fetch_tle_reqs: "snd (fetch_tle rg nid reqs) = reqs @ [nid]"
  by (simp add: fetch_tle_def split: http_result.splits list.splits)

lemma fetch_tle_result: "fst (fetch_tle rg nid reqs) = fst (fetch_tle rg nid [])"
  by (simp add: fetch_tle_def split: http_result.splits list.splits)

lemma fetch_tle_None:
  "fetch_tle rg nid reqs = (None, reqs') \<Longrightarrow> \<not> fetched rg nid \<and> reqs' = reqs @ [nid]"
  using fetch_tle_reqs [of rg nid reqs] fetch_tle_result [of rg nid reqs]
  by (simp add: fetched_def)

lemma fetch_tle_Some:
  assumes "fetch_tle rg nid reqs = (Some t, reqs')"
  shows "fetched rg nid \<and> fst (fetch_tle rg nid []) = Some t \<and> reqs' = reqs @ [nid]"
proof -
  have "fst (fetch_tle rg nid []) = Some t"
    using assms fetch_tle_result [of rg nid reqs] by simp
  moreover have "reqs' = reqs @ [nid]"
    using assms fetch_tle_reqs [of rg nid reqs] by simp
  ultimately show ?thesis by (simp add: fetched_def)
qed

lemma map_of_dict_set: "map_of (dict_set k v kvs) = (map_of kvs)(k \<mapsto> v)"
  by (induction kvs) auto

lemma load_sats_reqs_prefix:
  "\<exists>k. fst (load_sats ev cfg st ids sats reqs) = reqs @ take k ids"
proof (induction ids arbitrary: sats reqs)
  case Nil
  then show ?case by simp
next
  case (Cons nid rest)
  obtain t reqs' where f: "fetch_tle (requests_get ev) nid reqs = (t, reqs')"
    by (cases "fetch_tle (requests_get ev) nid reqs")
  then have r: "reqs' = reqs @ [nid]" using fetch_tle_reqs [of "requests_get ev" nid reqs] by simp
  have ext: "\<exists>k. x = reqs @ take k (nid # rest)" if "\<exists>k. x = reqs' @ take k rest" for x
  proof -
    from that obtain k where "x = reqs' @ take k rest" by blast
    then have "x = reqs @ take (Suc k) (nid # rest)" using r by simp
    then show ?thesis by blast
  qed
  have one: "\<exists>k. reqs' = reqs @ take k (nid # rest)"
  proof
    show "reqs' = reqs @ take 1 (nid # rest)" using r by simp
  qed
  show ?case
  proof (cases t)
    case None
    with f show ?thesis using ext Cons.IH by simp
  next
    case (Some tle)
    obtain nm l1 l2 where tle: "tle = (nm, l1, l2)" by (cases tle)
    show ?thesis
    proof (cases "propagate_positions (satrec_twoline2rv ev) l1 l2 st
                  (TIME_WINDOW_HOURS cfg) (TIME_STEP_SECONDS cfg)")
      case (Inl e)
      with f Some tle show ?thesis using one by simp
    next
      case (Inr ps)
      with f Some tle show ?thesis using ext Cons.IH by simp
    qed
  qed
qed

lemma load_sats_success:
  "snd (load_sats ev cfg st ids sats reqs) = Inr sats' \<Longrightarrow>
   fst (load_sats ev cfg st ids sats reqs) = reqs @ ids
   \<and> (\<forall>nid. map_of sats' nid =
         (if nid \<in> set ids \<and> fetched (requests_get ev) nid then loaded ev cfg st nid
          else map_of sats nid))
   \<and> (\<forall>nid. nid \<in> set ids \<and> fetched (requests_get ev) nid \<longrightarrow> loaded ev cfg st nid \<noteq> None)"
proof (induction ids arbitrary: sats reqs)
  case Nil
  then show ?case by simp
next
  case (Cons nid rest)
  obtain t reqs' where f: "fetch_tle (requests_get ev) nid reqs = (t, reqs')"
    by (cases "fetch_tle (requests_get ev) nid reqs")
  show ?case
  proof (cases t)
    case None
    with f have nf: "\<not> fetched (requests_get ev) nid" and r: "reqs' = reqs @ [nid]"
      using fetch_tle_None by blast+
    from f None Cons.prems have "snd (load_sats ev cfg st rest sats reqs') = Inr sats'"
      by simp
    from Cons.IH [OF this] f None nf r show ?thesis by auto
  next
    case (Some tle)
    obtain nm l1 l2 where tle: "tle = (nm, l1, l2)" by (cases tle)
    from f Some tle have fe: "fetched (requests_get ev) nid"
      and ft: "fst (fetch_tle (requests_get ev) nid []) = Some (nm, l1, l2)"
      and r: "reqs' = reqs @ [nid]"
      using fetch_tle_Some by blast+
    show ?thesis
    proof (cases "propagate_positions (satrec_twoline2rv ev) l1 l2 st
                  (TIME_WINDOW_HOURS cfg) (TIME_STEP_SECONDS cfg)")
      case (Inl e)
      with f Some tle Cons.prems show ?thesis by simp
    next
      case (Inr ps)
      have ld: "loaded ev cfg st nid = Some \<lparr>name = nm, positions = ps\<rparr>"
        using ft Inr by (simp add: loaded_def)
      from f Some tle Inr Cons.prems
      have "snd (load_sats ev cfg st rest
                   (dict_set nid \<lparr>name = nm, positions = ps\<rparr> sats) reqs') = Inr sats'"
        by simp
      from Cons.IH [OF this] f Some tle Inr r fe ld show ?thesis
        by (auto simp: map_of_dict_set)
    qed
  qed
qed

lemma load_sats_skips_failed:
  "snd (load_sats ev cfg st ids sats reqs)
     = snd (load_sats ev cfg st (filter (fetched (requests_get ev)) ids) sats reqs2)"
proof (induction ids arbitrary: sats reqs reqs2)
  case Nil
  then show ?case by simp
next
  case (Cons nid rest)
  obtain t reqs' where f: "fetch_tle (requests_get ev) nid reqs = (t, reqs')"
    by (cases "fetch_tle (requests_get ev) nid reqs")
  show ?case
  proof (cases t)
    case None
    with f have nf: "\<not> fetched (requests_get ev) nid" using fetch_tle_None by blast
    with f None show ?thesis using Cons.IH by simp
  next
    case (Some tle)
    obtain nm l1 l2 where tle: "tle = (nm, l1, l2)" by (cases tle)
    from f Some tle have fe: "fetched (requests_get ev) nid"
      and ft: "fst (fetch_tle (requests_get ev) nid []) = Some (nm, l1, l2)"
      using fetch_tle_Some by blast+
    obtain reqs2' where f2: "fetch_tle (requests_get ev) nid reqs2 = (Some (nm, l1, l2), reqs2')"
      using ft fetch_tle_result [of "requests_get ev" nid reqs2]
      by (cases "fetch_tle (requests_get ev) nid reqs2") simp
    show ?thesis
    proof (cases "propagate_positions (satrec_twoline2rv ev) l1 l2 st
                  (TIME_WINDOW_HOURS cfg) (TIME_STEP_SECONDS cfg)")
      case (Inl e)
      with f f2 Some tle fe show ?thesis by simp
    next
      case (Inr ps)
      with f f2 Some tle fe show ?thesis using Cons.IH by simp
    qed
  qed
qed

lemma load_sats_ids_irrelevant:
  "load_sats ev (cfg\<lparr>NORAD_IDS := x\<rparr>) st ids sats reqs = load_sats ev cfg st ids sats reqs"
  by (induction ids arbitrary: sats reqs)
     (simp_all split: prod.splits option.splits sum.splits)

lemma inner_loop_ids_irrelevant:
  "inner_loop (cfg\<lparr>NORAD_IDS := x\<rparr>) st a rest evs = inner_loop cfg st a rest evs"
  by (induction rest arbitrary: evs) (simp_all add: make_event_def split: sum.splits)

lemma outer_loop_ids_irrelevant:
  "outer_loop (cfg\<lparr>NORAD_IDS := x\<rparr>) st xs evs = outer_loop cfg st xs evs"
  by (induction xs arbitrary: evs) (simp_all add: inner_loop_ids_irrelevant split: sum.splits)

lemma inner_loop_names:
  "inner_loop cfg st a rest evs = Inr evs' \<Longrightarrow>
   map (\<lambda>e. (s1 e, s2 e)) evs'
     = map (\<lambda>e. (s1 e, s2 e)) evs @ map (\<lambda>b. (name a, name b)) rest"
proof (induction rest arbitrary: evs)
  case Nil
  then show ?case by simp
next
  case (Cons b rest)
  then show ?case
    by (cases "closest_approach (positions a) (positions b)") (auto simp: make_event_def)
qed

lemma outer_loop_names:
  "outer_loop cfg st xs evs = Inr evs' \<Longrightarrow>
   map (\<lambda>e. (s1 e, s2 e)) evs'
     = map (\<lambda>e. (s1 e, s2 e)) evs @ map (\<lambda>(a, b). (name a, name b)) (pairs_of xs)"
proof (induction xs arbitrary: evs)
  case Nil
  then show ?case by simp
next
  case (Cons a rest)
  show ?case
  proof (cases "inner_loop cfg st a rest evs")
    case (Inl e)
    with Cons.prems show ?thesis by simp
  next
    case (Inr evs1)
    with Cons.prems have "outer_loop cfg st rest evs1 = Inr evs'" by simp
    from Cons.IH [OF this] inner_loop_names [OF Inr] show ?thesis
      by (simp add: comp_def)
  qed
qed

lemma keys_dict_set: "fst ` set (dict_set k v kvs) = insert k (fst ` set kvs)"
proof -
  have "fst ` set (dict_set k v kvs) = dom (map_of (dict_set k v kvs))"
    by (simp add: dom_map_of_conv_image_fst)
  also have "\<dots> = insert k (dom (map_of kvs))"
    by (simp add: map_of_dict_set)
  finally show ?thesis by (simp add: dom_map_of_conv_image_fst)
qed

lemma distinct_dict_set: "distinct (map fst kvs) \<Longrightarrow> distinct (map fst (dict_set k v kvs))"
  by (induction kvs) (auto simp: keys_dict_set)

lemma load_sats_distinct:
  "distinct (map fst sats) \<Longrightarrow> snd (load_sats ev cfg st ids sats reqs) = Inr sats' \<Longrightarrow>
   distinct (map fst sats')"
proof (induction ids arbitrary: sats reqs)
  case Nil
  then show ?case by simp
next
  case (Cons nid rest)
  obtain t reqs' where f: "fetch_tle (requests_get ev) nid reqs = (t, reqs')"
    by (cases "fetch_tle (requests_get ev) nid reqs")
  show ?case
  proof (cases t)
    case None
    with f Cons.prems Cons.IH show ?thesis by simp
  next
    case (Some tle)
    obtain nm l1 l2 where tle: "tle = (nm, l1, l2)" by (cases tle)
    show ?thesis
    proof (cases "propagate_positions (satrec_twoline2rv ev) l1 l2 st
                  (TIME_WINDOW_HOURS cfg) (TIME_STEP_SECONDS cfg)")
      case (Inl e)
      with f Some tle Cons.prems show ?thesis by simp
    next
      case (Inr ps)
      with f Some tle Cons.prems(2)
      have "snd (load_sats ev cfg st rest
                   (dict_set nid \<lparr>name = nm, positions = ps\<rparr> sats) reqs') = Inr sats'"
        by simp
      moreover have "distinct (map fst (dict_set nid \<lparr>name = nm, positions = ps\<rparr> sats))"
        using Cons.prems(1) by (rule distinct_dict_set)
      ultimately show ?thesis using Cons.IH by blast
    qed
  qed
qed

lemma fetched_iff:
  "fetched rg nid = (\<exists>body. rg nid = Body body \<and> 3 \<le> length (splitlines (strip body)))"
proof (cases "rg nid")
  case RequestException
  then show ?thesis by (simp add: fetched_def fetch_tle_def)
next
  case (Body body)
  then show ?thesis
    by (auto simp: fetched_def fetch_tle_def split: list.splits)
qed

text \<open>
  All trajectories of a run are sampled with the same window and step, so they have the
  same number of samples.
\<close>

lemma propagate_positions_length:
  assumes "propagate_positions twoline line1 line2 start_time hours step_sec = Inr ps"
  shows "length ps = grid_count hours step_sec"
proof (cases "twoline line1 line2")
  case (Inl e)
  with assms show ?thesis by (simp add: propagate_positions_def)
next
  case (Inr satellite)
  note pp = propagate_positions_ok
    [where twoline = twoline and ?line1.0 = line1 and ?line2.0 = line2
       and satellite = satellite and start_time = start_time and hours = hours
       and step_sec = step_sec, OF Inr]
  show ?thesis
    using assms unfolding pp grid_count_def
    by (auto split: sum.splits if_splits)
qed

lemma set_dict_set: "set (dict_set k v kvs) \<subseteq> insert (k, v) (set kvs)"
  by (induction kvs) (auto split: if_splits)

lemma load_sats_same_length:
  assumes "snd (load_sats ev cfg st ids sats reqs) = Inr sats'"
    and "\<forall>s\<in>set sats. length (positions (snd s))
           = grid_count (TIME_WINDOW_HOURS cfg) (TIME_STEP_SECONDS cfg)"
  shows "\<forall>s\<in>set sats'. length (positions (snd s))
           = grid_count (TIME_WINDOW_HOURS cfg) (TIME_STEP_SECONDS cfg)"
  using assms
proof (induction ids arbitrary: sats reqs)
  case Nil
  then show ?case by simp
next
  case (Cons nid rest)
  obtain t reqs' where f: "fetch_tle (requests_get ev) nid reqs = (t, reqs')"
    by (cases "fetch_tle (requests_get ev) nid reqs")
  show ?case
  proof (cases t)
    case None
    with f Cons.prems Cons.IH show ?thesis by simp
  next
    case (Some tle)
    obtain nm l1 l2 where tle: "tle = (nm, l1, l2)" by (cases tle)
    show ?thesis
    proof (cases "propagate_positions (satrec_twoline2rv ev) l1 l2 st
                  (TIME_WINDOW_HOURS cfg) (TIME_STEP_SECONDS cfg)")
      case (Inl e)
      with f Some tle Cons.prems show ?thesis by simp
    next
      case (Inr ps)
      let ?sats = "dict_set nid \<lparr>name = nm, positions = ps\<rparr> sats"
      from f Some tle Inr Cons.prems(1)
      have "snd (load_sats ev cfg st rest ?sats reqs') = Inr sats'" by simp
      moreover have "\<forall>s\<in>set ?sats. length (positions (snd s))
           = grid_count (TIME_WINDOW_HOURS cfg) (TIME_STEP_SECONDS cfg)"
        using Cons.prems(2) propagate_positions_length [OF Inr]
          set_dict_set [of nid "\<lparr>name = nm, positions = ps\<rparr>" sats]
        by auto
      ultimately show ?thesis by (rule Cons.IH)
    qed
  qed
qed

lemma main_script_same_length:
  assumes "main_script ev cfg start_time = (reqs, Inr (sats, events))"
  shows "\<forall>s\<in>set sats. length (positions (snd s))
           = grid_count (TIME_WINDOW_HOURS cfg) (TIME_STEP_SECONDS cfg)"
proof -
  from assms have "snd (load_sats ev cfg start_time (NORAD_IDS cfg) [] []) = Inr sats"
    by (auto simp: main_script_def split: prod.splits sum.splits)
  then show ?thesis by (rule load_sats_same_length) simp
qed

subsection \<open>Closest approach\<close>

text \<open>
  C1. For two trajectories with the same number of samples and at least one index where
  both samples are valid, the distance at an index is NaN exactly where a sample is
  invalid, and the analysis returns an index where both samples are valid, together with
  the separation there, which is the least separation over the indices where both samples
  are valid: an invalid sample counts neither as distance 0 nor as infinity.
\<close>

theorem closest_approach_skips_invalid:
  assumes "length p1 = length p2"
    and "i < length p1" and "valid (p1 ! i)" and "valid (p2 ! i)"
  shows "\<exists>ds k. pair_distances p1 p2 = Inr ds \<and> length ds = length p1
           \<and> (\<forall>j<length p1. ds ! j = (if valid (p1 ! j) \<and> valid (p2 ! j)
                                        then Fin (separation (p1 ! j) (p2 ! j)) else NaN))
           \<and> closest_approach p1 p2 = Inr (k, Fin (separation (p1 ! k) (p2 ! k)))
           \<and> k < length p1 \<and> valid (p1 ! k) \<and> valid (p2 ! k)
           \<and> (\<forall>j<length p1. valid (p1 ! j) \<and> valid (p2 ! j) \<longrightarrow>
                 separation (p1 ! k) (p2 ! k) \<le> separation (p1 ! j) (p2 ! j))"
proof -
  let ?ds = "map (\<lambda>(r, s). row_norm (row_sub r s)) (zip p1 p2)"
  have ne: "p1 \<noteq> []" using assms(2) by auto
  have pd: "pair_distances p1 p2 = Inr ?ds"
    using assms(1) ne by (rule pair_distances_same_length)
  have lds: "length ?ds = length p1" using assms(1) by simp
  have nth: "\<forall>j<length p1. ?ds ! j = (if valid (p1 ! j) \<and> valid (p2 ! j)
                        then Fin (separation (p1 ! j) (p2 ! j)) else NaN)"
    using assms(1) distances_nth by blast
  obtain k where k: "closest_approach p1 p2 = Inr (k, Fin (separation (p1 ! k) (p2 ! k)))"
      "k < length p1" "valid (p1 ! k)" "valid (p2 ! k)"
      "\<forall>j<length p1. valid (p1 ! j) \<and> valid (p2 ! j) \<longrightarrow>
                 separation (p1 ! k) (p2 ! k) \<le> separation (p1 ! j) (p2 ! j)"
    using closest_approach_spec [OF assms] by blast
  show ?thesis
    using pd lds nth k by blast
qed

theorem closest_approach_skips_invalid_witness:
  "length [nan_row, (Fin 0, Fin 0, Fin 0), (Fin 0, Fin 0, Fin 0)]
     = length [(Fin 1, Fin 0, Fin 0), (Fin 3, Fin 4, Fin 0), (Fin 0, Fin 0, Fin 2)]
   \<and> valid ([nan_row, (Fin 0, Fin 0, Fin 0), (Fin 0, Fin 0, Fin 0)] ! 1)
   \<and> valid ([(Fin 1, Fin 0, Fin 0), (Fin 3, Fin 4, Fin 0), (Fin 0, Fin 0, Fin 2)] ! 1)
   \<and> pair_distances [nan_row, (Fin 0, Fin 0, Fin 0), (Fin 0, Fin 0, Fin 0)]
        [(Fin 1, Fin 0, Fin 0), (Fin 3, Fin 4, Fin 0), (Fin 0, Fin 0, Fin 2)]
        = Inr [NaN, Fin (sqrt 25), Fin 2]
   \<and> closest_approach [nan_row, (Fin 0, Fin 0, Fin 0), (Fin 0, Fin 0, Fin 0)]
        [(Fin 1, Fin 0, Fin 0), (Fin 3, Fin 4, Fin 0), (Fin 0, Fin 0, Fin 2)] = Inr (2, Fin 2)
   \<and> (\<exists>k. closest_approach [nan_row, (Fin 0, Fin 0, Fin 0), (Fin 0, Fin 0, Fin 0)]
        [(Fin 1, Fin 0, Fin 0), (Fin 3, Fin 4, Fin 0), (Fin 0, Fin 0, Fin 2)]
          = Inr (k, Fin (separation
               ([nan_row, (Fin 0, Fin 0, Fin 0), (Fin 0, Fin 0, Fin 0)] ! k)
               ([(Fin 1, Fin 0, Fin 0), (Fin 3, Fin 4, Fin 0), (Fin 0, Fin 0, Fin 2)] ! k))))"
proof -
  let ?p1 = "[nan_row, (Fin 0, Fin 0, Fin 0), (Fin 0, Fin 0, Fin 0)]"
  let ?p2 = "[(Fin 1, Fin 0, Fin 0), (Fin 3, Fin 4, Fin 0), (Fin 0, Fin 0, Fin 2)]"
  have h1: "length ?p1 = length ?p2" by simp
  have h2: "1 < length ?p1" by simp
  have h3: "valid (?p1 ! 1)" by simp
  have h4: "valid (?p2 ! 1)" by simp
  have c: "\<exists>k. closest_approach ?p1 ?p2 = Inr (k, Fin (separation (?p1 ! k) (?p2 ! k)))"
    using closest_approach_skips_invalid [OF h1 h2 h3 h4] by blast
  have d: "pair_distances ?p1 ?p2 = Inr [NaN, Fin (sqrt 25), Fin 2]"
    by (simp add: pair_distances_def ndarray_sub_def linalg_norm_def nan_row_def)
  have e: "closest_approach ?p1 ?p2 = Inr (2, Fin 2)"
    by (simp add: closest_approach_def min_dist_def d nanargmin_def argmin_def)
  show ?thesis using h1 h3 h4 c d e by blast
qed



subsection \<open>A pair without a common valid index\<close>

text \<open>
  C4, as stated, fails: the pair without a common valid index raises ValueError, nothing
  catches it, and the run reports no event at all, although the other pair of the same
  run, analysed alone, yields its event.
\<close>

theorem no_overlap_counterexample:
  "closest_approach [nan_row] [(Fin 0, Fin 0, Fin 0)] = Inl ValueError
   \<and> collision_analysis script_config 0
        [(2, \<lparr>name = ''B'', positions = [(Fin 0, Fin 0, Fin 0)]\<rparr>),
         (3, \<lparr>name = ''C'', positions = [(Fin 0, Fin 0, Fin 2)]\<rparr>)]
       = Inr [\<lparr>s1 = ''B'', s2 = ''C'', distance = Fin 2, time_of_approach = 0\<rparr>]
   \<and> collision_analysis script_config 0
        [(1, \<lparr>name = ''A'', positions = [nan_row]\<rparr>),
         (2, \<lparr>name = ''B'', positions = [(Fin 0, Fin 0, Fin 0)]\<rparr>),
         (3, \<lparr>name = ''C'', positions = [(Fin 0, Fin 0, Fin 2)]\<rparr>)]
       = Inl ValueError"
proof -
  have a: "closest_approach [nan_row] [(Fin 0, Fin 0, Fin 0)] = Inl ValueError"
    by (simp add: closest_approach_def min_dist_def pair_distances_def ndarray_sub_def linalg_norm_def
        nanargmin_def nan_row_def)
  have b: "closest_approach [(Fin 0, Fin 0, Fin 0)] [(Fin 0, Fin 0, Fin 2)] = Inr (0, Fin 2)"
    by (simp add: closest_approach_def min_dist_def pair_distances_def ndarray_sub_def linalg_norm_def
        nanargmin_def argmin_def)
  show ?thesis
    by (simp add: collision_analysis_def a b make_event_def timedelta_def)
qed

text \<open>
  C4, amended. When all trajectories have the same positive number of samples and some
  pair has no index at which both samples are valid, the analysis of that pair raises
  ValueError (numpy's all-NaN error), and the whole analysis run ends with ValueError: no
  event is reported for any pair.
\<close>

theorem no_overlap_aborts_run:
  assumes "\<forall>s\<in>set sats. length (positions (snd s)) = n" and "0 < n"
    and "i < j" and "j < length sats"
    and "\<forall>k<n. \<not> (valid (positions (snd (sats ! i)) ! k) \<and> valid (positions (snd (sats ! j)) ! k))"
  shows "closest_approach (positions (snd (sats ! i))) (positions (snd (sats ! j)))
           = Inl ValueError
         \<and> collision_analysis cfg start_time sats = Inl ValueError"
proof -
  let ?xs = "map snd sats"
  have len: "length (positions (?xs ! k)) = n" if "k < length sats" for k
    using assms(1) that by simp
  have i: "i < length sats" using assms(3,4) by simp
  have pi: "length (positions (snd (sats ! i))) = n" using len [OF i] i by simp
  have pj: "length (positions (snd (sats ! j))) = n" using len [OF assms(4)] assms(4) by simp
  have pair: "closest_approach (positions (snd (sats ! i))) (positions (snd (sats ! j)))
           = Inl ValueError"
  proof (rule closest_approach_no_overlap)
    show "length (positions (snd (sats ! i))) = length (positions (snd (sats ! j)))"
      using pi pj by simp
    show "positions (snd (sats ! i)) \<noteq> []" using pi assms(2) by auto
    show "\<forall>k<length (positions (snd (sats ! i))).
       \<not> (valid (positions (snd (sats ! i)) ! k) \<and> valid (positions (snd (sats ! j)) ! k))"
      using assms(5) pi by simp
  qed
  then have "closest_approach (positions (?xs ! i)) (positions (?xs ! j)) = Inl ValueError"
    using i assms(4) by simp
  then have "\<exists>e'. outer_loop cfg start_time ?xs [] = Inl e'"
    using assms(3,4) by (intro outer_loop_abort [of i j]) simp_all
  then obtain e where e: "outer_loop cfg start_time ?xs [] = Inl e" by blast
  then obtain i' j' where ij: "i' < j'" "j' < length ?xs"
    "closest_approach (positions (?xs ! i')) (positions (?xs ! j')) = Inl e"
    using outer_loop_Inl by blast
  have "e = ValueError"
  proof (rule closest_approach_same_length_error [OF _ _ ij(3)])
    show "length (positions (?xs ! i')) = length (positions (?xs ! j'))"
      using len ij(1,2) by simp
    show "positions (?xs ! i') \<noteq> []"
      using len [of i'] ij(1,2) assms(2) by auto
  qed
  with e pair show ?thesis by (simp add: collision_analysis_def)
qed

theorem no_overlap_aborts_run_witness:
  "closest_approach
      (positions (snd ([(1::int, \<lparr>name = ''A'', positions = [nan_row]\<rparr>),
         (2, \<lparr>name = ''B'', positions = [(Fin 0, Fin 0, Fin 0)]\<rparr>),
         (3, \<lparr>name = ''C'', positions = [(Fin 0, Fin 0, Fin 2)]\<rparr>)] ! 0)))
      (positions (snd ([(1::int, \<lparr>name = ''A'', positions = [nan_row]\<rparr>),
         (2, \<lparr>name = ''B'', positions = [(Fin 0, Fin 0, Fin 0)]\<rparr>),
         (3, \<lparr>name = ''C'', positions = [(Fin 0, Fin 0, Fin 2)]\<rparr>)] ! 2)))
     = Inl ValueError
   \<and> collision_analysis script_config 7
        [(1, \<lparr>name = ''A'', positions = [nan_row]\<rparr>),
         (2, \<lparr>name = ''B'', positions = [(Fin 0, Fin 0, Fin 0)]\<rparr>),
         (3, \<lparr>name = ''C'', positions = [(Fin 0, Fin 0, Fin 2)]\<rparr>)]
       = Inl ValueError"
proof -
  let ?sats = "[(1::int, \<lparr>name = ''A'', positions = [nan_row]\<rparr>),
         (2, \<lparr>name = ''B'', positions = [(Fin 0, Fin 0, Fin 0)]\<rparr>),
         (3, \<lparr>name = ''C'', positions = [(Fin 0, Fin 0, Fin 2)]\<rparr>)]"
  have h1: "\<forall>s\<in>set ?sats. length (positions (snd s)) = 1" by simp
  have h2: "(0::nat) < 1" by simp
  have h3: "(0::nat) < 2" by simp
  have h4: "2 < length ?sats" by simp
  have h5: "\<forall>k<1. \<not> (valid (positions (snd (?sats ! 0)) ! k)
              \<and> valid (positions (snd (?sats ! 2)) ! k))"
    by (simp add: nan_row_def)
  show ?thesis
    by (rule no_overlap_aborts_run [OF h1 h2 h3 h4 h5])
qed

subsection \<open>Risk classification\<close>

text \<open>
  C2. The line rendered for an event is an ALERT exactly when its distance is a number
  strictly below the configured threshold, and SAFE otherwise, whatever the current time
  and the names are; a distance equal to the threshold is SAFE.
\<close>

theorem risk_classification:
  "(risk (info_line cfg now e) = ALERT)
     = (\<exists>d. distance e = Fin d \<and> d < COLLISION_THRESHOLD_KM cfg)
   \<and> (risk (info_line cfg now e) = SAFE)
     = (\<not> (\<exists>d. distance e = Fin d \<and> d < COLLISION_THRESHOLD_KM cfg))
   \<and> risk (info_line cfg now (e\<lparr>distance := Fin (COLLISION_THRESHOLD_KM cfg)\<rparr>)) = SAFE
   \<and> map risk (update_info cfg now es)
       = map (\<lambda>e. if fl_less (distance e) (Fin (COLLISION_THRESHOLD_KM cfg))
                   then ALERT else SAFE) es"
proof -
  have r: "risk (info_line cfg now e) =
             (if fl_less (distance e) (Fin (COLLISION_THRESHOLD_KM cfg)) then ALERT else SAFE)"
    for e
    by (simp add: info_line_def Let_def)
  have l: "fl_less x (Fin t) = (\<exists>d. x = Fin d \<and> d < t)" for x t
    by (cases x) simp_all
  show ?thesis
    by (simp add: r l update_info_def)
qed

theorem risk_classification_witness:
  "risk (info_line script_config 0
      \<lparr>s1 = ''A'', s2 = ''B'', distance = Fin 49.999, time_of_approach = 0\<rparr>) = ALERT
   \<and> risk (info_line script_config 0
      \<lparr>s1 = ''A'', s2 = ''B'', distance = Fin 50, time_of_approach = 0\<rparr>) = SAFE
   \<and> risk (info_line script_config 0
      \<lparr>s1 = ''A'', s2 = ''B'', distance = Fin 50.001, time_of_approach = 0\<rparr>) = SAFE
   \<and> risk (info_line script_config 0
      \<lparr>s1 = ''A'', s2 = ''B'', distance = NaN, time_of_approach = 0\<rparr>) = SAFE"
proof -
  let ?e = "\<lambda>x. \<lparr>s1 = ''A'', s2 = ''B'', distance = x, time_of_approach = 0\<rparr>"
  have t: "COLLISION_THRESHOLD_KM script_config = 50" by (simp add: script_config_def)
  have "\<exists>d. distance (?e (Fin 49.999)) = Fin d \<and> d < COLLISION_THRESHOLD_KM script_config"
    unfolding t by (rule exI [of _ "49.999"]) simp
  then have a: "risk (info_line script_config 0 (?e (Fin 49.999))) = ALERT"
    using risk_classification [of script_config 0 "?e (Fin 49.999)" "[]"] by blast
  have "\<not> (\<exists>d. distance (?e (Fin 50)) = Fin d \<and> d < COLLISION_THRESHOLD_KM script_config)"
    unfolding t by simp
  then have b: "risk (info_line script_config 0 (?e (Fin 50))) = SAFE"
    using risk_classification [of script_config 0 "?e (Fin 50)" "[]"] by blast
  have "\<not> (\<exists>d. distance (?e (Fin 50.001)) = Fin d \<and> d < COLLISION_THRESHOLD_KM script_config)"
    unfolding t by auto
  then have c: "risk (info_line script_config 0 (?e (Fin 50.001))) = SAFE"
    using risk_classification [of script_config 0 "?e (Fin 50.001)" "[]"] by blast
  have "\<not> (\<exists>d. distance (?e NaN) = Fin d \<and> d < COLLISION_THRESHOLD_KM script_config)"
    by simp
  then have d: "risk (info_line script_config 0 (?e NaN)) = SAFE"
    using risk_classification [of script_config 0 "?e NaN" "[]"] by blast
  show ?thesis using a b c d by simp
qed

subsection \<open>The trajectory sampler\<close>

text \<open>
  C5, as stated, fails: the number of samples is taken from the quotient computed in
  floats. For a window of 0.3 hours (the double nearest to 0.3) and a step of 60 seconds
  the product rounds up to 1080.0 and the sampler returns 18 samples, while the floor of
  the window divided by the step is 17.
\<close>

theorem sampler_rounded_count_counterexample:
  "(0::int) < 60 \<and> (0::real) < 5404319552844595 / 2 ^ 54
   \<and> (\<exists>ps. propagate_positions (\<lambda>l1 l2. Inr (\<lambda>t. (0, (Fin 1, Fin 2, Fin 3))))
              ''1 25544U'' ''2 25544'' 0 (Finite (5404319552844595 / 2 ^ 54)) 60 = Inr ps
            \<and> length ps = 18)
   \<and> \<lfloor>(5404319552844595 / 2 ^ 54 * 3600 / 60) :: real\<rfloor> = 17"
proof -
  have p: "times_3600 (Finite (5404319552844595 / 2 ^ 54)) = Finite 1080"
    by (simp, subst round_double_binade [of 10])
       (simp_all add: round_half_even_def Let_def)
  have d: "round_double 60 = Finite 60"
    by (subst round_double_binade [of 5]) (simp_all add: round_half_even_def)
  have q: "round_double 18 = Finite 18"
    by (subst round_double_binade [of 4]) (simp_all add: round_half_even_def)
  have fq: "float_div_int (times_3600 (Finite (5404319552844595 / 2 ^ 54))) 60
      = Inr (Finite 18)"
    unfolding p float_div_int_def by (simp add: d q)
  have r: "\<forall>j. 0 \<le> j \<and> j < 18 \<longrightarrow> in_range (current_time 0 60 j)"
    by (simp add: in_range_def current_time_def timedelta_def datetime_max_def)
  have "\<exists>ps. propagate_positions (\<lambda>l1 l2. Inr (\<lambda>t. (0, (Fin 1, Fin 2, Fin 3))))
              ''1 25544U'' ''2 25544'' 0 (Finite (5404319552844595 / 2 ^ 54)) 60 = Inr ps
            \<and> length ps = 18"
    using r unfolding propagate_positions_def fq by (simp add: propagate_loop_eq)
  moreover have "\<lfloor>(5404319552844595 / 2 ^ 54 * 3600 / 60) :: real\<rfloor> = 17"
    by simp
  ultimately show ?thesis by simp
qed

text \<open>
  C5, amended. For a positive step and a positive finite window, when the quotient \<open>q\<close>
  of \<open>hours * 3600\<close> by the step, as computed in double arithmetic, is finite and the grid
  stays in the range of datetime, the sampler returns exactly \<open>floor q\<close> samples, and the
  sample at every index \<open>i\<close> below that count is the outcome of the propagator for the
  instant \<open>start_time + i * step\<close>: the position when the error code is 0, and otherwise
  the row of NaN, which is an invalid sample. No index is left out.
\<close>

theorem sampler_count_of_float_quotient:
  assumes "0 < step_sec" and "0 < h" and "twoline line1 line2 = Inr satellite"
    and "float_div_int (times_3600 (Finite h)) step_sec = Inr (Finite q)"
    and "in_range start_time"
    and "current_time start_time step_sec (\<lfloor>q\<rfloor> - 1) < datetime_max"
  shows "\<exists>ps. propagate_positions twoline line1 line2 start_time (Finite h) step_sec = Inr ps
           \<and> int (length ps) = \<lfloor>q\<rfloor>
           \<and> (\<forall>i<length ps. ps ! i =
                 (case satellite (calendar_fields (start_time + timedelta (int i * step_sec))) of
                    (err, position) \<Rightarrow> if err = 0 then position else nan_row))
           \<and> (\<forall>i<length ps.
                 fst (satellite (calendar_fields (start_time + timedelta (int i * step_sec)))) \<noteq> 0
                 \<longrightarrow> \<not> valid (ps ! i))"
proof -
  let ?ps = "map (sample satellite start_time step_sec) [0..\<lfloor>q\<rfloor> - 1]"
  have q0: "0 \<le> q" using float_quotient_sign [OF assms(4)] assms(1,2) by simp
  then have n: "py_int (Finite q) = Inr \<lfloor>q\<rfloor>" by simp
  have n0: "0 \<le> \<lfloor>q\<rfloor>" using q0 by simp
  have r: "\<forall>j. 0 \<le> j \<and> j < \<lfloor>q\<rfloor> \<longrightarrow> in_range (current_time start_time step_sec j)"
    using grid_in_range [OF assms(1,5,6)] by blast
  have pp: "propagate_positions twoline line1 line2 start_time (Finite h) step_sec = Inr ?ps"
    using r q0 unfolding propagate_positions_def assms(3,4) by (simp add: propagate_loop_eq)
  have len: "int (length ?ps) = \<lfloor>q\<rfloor>" using n0 by simp
  have nth: "?ps ! i =
      (case satellite (calendar_fields (start_time + timedelta (int i * step_sec))) of
         (err, position) \<Rightarrow> if err = 0 then position else nan_row)"
    if "i < length ?ps" for i
    using that by (simp add: sample_def current_time_def)
  have inv: "\<not> valid (?ps ! i)"
    if "i < length ?ps"
      "fst (satellite (calendar_fields (start_time + timedelta (int i * step_sec)))) \<noteq> 0" for i
    using nth [OF that(1)] that(2) nan_row_invalid by (simp add: case_prod_unfold)
  show ?thesis using pp len nth inv by blast
qed

theorem sampler_count_of_float_quotient_witness:
  "(0::int) < 60 \<and> (0::real) < 6
   \<and> float_div_int (times_3600 (Finite 6)) 60 = Inr (Finite 360)
   \<and> in_range 1500000
   \<and> current_time 1500000 60 (\<lfloor>360 :: real\<rfloor> - 1) < datetime_max
   \<and> (\<exists>ps. propagate_positions
              (\<lambda>l1 l2. Inr (\<lambda>t. if t = 61 then (1, (Fin 9, Fin 9, Fin 9))
                                    else (0, (Fin (real_of_int t), Fin 0, Fin 0))))
              ''1 25544U'' ''2 25544'' 1500000 (Finite 6) 60 = Inr ps
            \<and> length ps = 360 \<and> ps ! 0 = (Fin 1, Fin 0, Fin 0) \<and> ps ! 1 = nan_row
            \<and> \<not> valid (ps ! 1) \<and> ps ! 2 = (Fin 121, Fin 0, Fin 0))"
proof -
  let ?sat = "\<lambda>t::int. if t = 61 then (1::int, (Fin 9, Fin 9, Fin 9))
                              else (0, (Fin (real_of_int t), Fin 0, Fin 0))"
  let ?tl = "\<lambda>(l1::string) (l2::string). (Inr ?sat :: error + satrec)"
  have h1: "(0::int) < 60" by simp
  have h2: "(0::real) < 6" by simp
  have h3: "?tl ''1 25544U'' ''2 25544'' = Inr ?sat" by simp
  have p: "times_3600 (Finite 6) = Finite 21600"
    by (simp, subst round_double_binade [of 14]) (simp_all add: round_half_even_def)
  have d: "round_double 60 = Finite 60"
    by (subst round_double_binade [of 5]) (simp_all add: round_half_even_def)
  have q: "round_double 360 = Finite 360"
    by (subst round_double_binade [of 8]) (simp_all add: round_half_even_def)
  have h4: "float_div_int (times_3600 (Finite 6)) 60 = Inr (Finite 360)"
    unfolding p float_div_int_def by (simp add: d q)
  have h5: "in_range 1500000" by (simp add: in_range_def datetime_max_def)
  have h6: "current_time 1500000 60 (\<lfloor>360 :: real\<rfloor> - 1) < datetime_max"
    by (simp add: current_time_def timedelta_def datetime_max_def)
  obtain ps where ps: "propagate_positions ?tl ''1 25544U'' ''2 25544'' 1500000 (Finite 6) 60
        = Inr ps" "int (length ps) = \<lfloor>360 :: real\<rfloor>"
    and nth: "\<forall>i<length ps. ps ! i =
                 (case ?sat (calendar_fields (1500000 + timedelta (int i * 60))) of
                    (err, position) \<Rightarrow> if err = 0 then position else nan_row)"
    and inv: "\<forall>i<length ps.
                 fst (?sat (calendar_fields (1500000 + timedelta (int i * 60)))) \<noteq> 0
                 \<longrightarrow> \<not> valid (ps ! i)"
    using sampler_count_of_float_quotient [OF h1 h2 h3 h4 h5 h6] by blast
  have len: "length ps = 360" using ps(2) by simp
  have s0: "ps ! 0 = (Fin 1, Fin 0, Fin 0)"
    using nth [rule_format, of 0] len by (simp add: calendar_fields_def timedelta_def)
  have s1: "ps ! 1 = nan_row"
    using nth [rule_format, of 1] len by (simp add: calendar_fields_def timedelta_def)
  have s2: "ps ! 2 = (Fin 121, Fin 0, Fin 0)"
    using nth [rule_format, of 2] len by (simp add: calendar_fields_def timedelta_def)
  have i1: "\<not> valid (ps ! 1)"
    using inv [rule_format, of 1] len by (simp add: calendar_fields_def timedelta_def)
  show ?thesis using h1 h2 h4 h5 h6 ps(1) len s0 s1 s2 i1 by blast
qed

text \<open>
  C6, as stated, fails: a negative or zero window and a negative step are not rejected;
  the sampler returns an empty trajectory.
\<close>

theorem sampler_rejects_counterexample:
  "propagate_positions (\<lambda>l1 l2. Inr (\<lambda>t. (0, (Fin 1, Fin 2, Fin 3))))
      ''1 25544U'' ''2 25544'' 0 (Finite (- 1)) 60 = Inr []
   \<and> propagate_positions (\<lambda>l1 l2. Inr (\<lambda>t. (0, (Fin 1, Fin 2, Fin 3))))
      ''1 25544U'' ''2 25544'' 0 (Finite 0) 60 = Inr []
   \<and> propagate_positions (\<lambda>l1 l2. Inr (\<lambda>t. (0, (Fin 1, Fin 2, Fin 3))))
      ''1 25544U'' ''2 25544'' 0 (Finite 6) (- 60) = Inr []"
proof -
  have d: "round_double 60 = Finite 60"
    by (subst round_double_binade [of 5]) (simp_all add: round_half_even_def)
  have dm: "round_double (- 60) = Finite (- 60)"
    by (subst round_double_binade [of 5]) (simp_all add: round_half_even_def)
  have p1: "times_3600 (Finite (- 1)) = Finite (- 3600)"
    by (simp, subst round_double_binade [of 11]) (simp_all add: round_half_even_def)
  have p0: "times_3600 (Finite 0) = Finite 0"
    by (simp add: round_double_zero)
  have p6: "times_3600 (Finite 6) = Finite 21600"
    by (simp, subst round_double_binade [of 14]) (simp_all add: round_half_even_def)
  have qm: "round_double (- 360) = Finite (- 360)"
    by (subst round_double_binade [of 8]) (simp_all add: round_half_even_def)
  have f1: "float_div_int (times_3600 (Finite (- 1))) 60 = Inr (Finite (- 60))"
    unfolding p1 float_div_int_def by (simp add: d dm)
  have f0: "float_div_int (times_3600 (Finite 0)) 60 = Inr (Finite 0)"
    unfolding p0 float_div_int_def by (simp add: d round_double_zero)
  have f6: "float_div_int (times_3600 (Finite 6)) (- 60) = Inr (Finite (- 360))"
    unfolding p6 float_div_int_def by (simp add: dm qm)
  show ?thesis
    unfolding propagate_positions_def f1 f0 f6 by (auto simp: propagate_loop_eq)
qed

text \<open>
  C6, amended. The sampler checks none of its parameters. An exception of
  \<open>Satrec.twoline2rv\<close> ends the call. Otherwise: a step of zero, and only that, raises
  ZeroDivisionError, before any sample is taken; when the quotient \<open>q\<close> computed in double
  arithmetic is finite and below 1 the result is the empty trajectory, and a window that
  is not positive with a positive step, or a negative step with a window that is not
  negative, gives the empty trajectory or OverflowError, never a rejection of the
  parameter; when \<open>q\<close> is finite and the grid stays in the range of datetime the call
  returns a trajectory, whatever the error codes of the propagator are: an invalid sample
  never raises. The call fails only where the division fails (zero step, or a step too
  large for a float), where \<open>int\<close> fails (a quotient that is NaN or infinite), or with
  OverflowError where an instant of the grid leaves the range of datetime.
\<close>

theorem sampler_parameters_unchecked:
  "(twoline line1 line2 = Inl e \<longrightarrow>
      propagate_positions twoline line1 line2 start_time hours step_sec = Inl e)
   \<and> (twoline line1 line2 = Inr satellite \<longrightarrow>
        (step_sec = 0 \<longrightarrow>
           propagate_positions twoline line1 line2 start_time hours step_sec
             = Inl ZeroDivisionError)
      \<and> (propagate_positions twoline line1 line2 start_time hours step_sec
             = Inl ZeroDivisionError \<longrightarrow> step_sec = 0)
      \<and> (float_div_int (times_3600 hours) step_sec = Inr (Finite q) \<and> q < 1 \<longrightarrow>
           propagate_positions twoline line1 line2 start_time hours step_sec = Inr [])
      \<and> (hours = Finite h \<and> (h \<le> 0 \<and> 0 < step_sec \<or> 0 \<le> h \<and> step_sec < 0) \<longrightarrow>
           propagate_positions twoline line1 line2 start_time hours step_sec = Inr []
           \<or> propagate_positions twoline line1 line2 start_time hours step_sec
               = Inl OverflowError)
      \<and> (float_div_int (times_3600 hours) step_sec = Inr (Finite q)
           \<and> (\<forall>i. 0 \<le> i \<and> i < \<lfloor>q\<rfloor> \<longrightarrow> in_range (current_time start_time step_sec i)) \<longrightarrow>
           (\<exists>ps. propagate_positions twoline line1 line2 start_time hours step_sec = Inr ps
              \<and> length ps = nat \<lfloor>q\<rfloor>))
      \<and> (propagate_positions twoline line1 line2 start_time hours step_sec = Inl e \<longrightarrow>
           float_div_int (times_3600 hours) step_sec = Inl e
           \<or> (\<exists>x. float_div_int (times_3600 hours) step_sec = Inr x \<and> py_int x = Inl e)
           \<or> (e = OverflowError
               \<and> (\<exists>i. 0 \<le> i \<and> \<not> in_range (current_time start_time step_sec i)))))"
proof (intro conjI impI)
  assume "twoline line1 line2 = Inl e"
  then show "propagate_positions twoline line1 line2 start_time hours step_sec = Inl e"
    by (simp add: propagate_positions_def)
next
  assume t: "twoline line1 line2 = Inr satellite"
  note pp = propagate_positions_ok
    [where twoline = twoline and ?line1.0 = line1 and ?line2.0 = line2
       and satellite = satellite and start_time = start_time and hours = hours
       and step_sec = step_sec, OF t]
  {
    assume "step_sec = 0"
    then have "float_div_int (times_3600 hours) step_sec = Inl ZeroDivisionError"
      by (simp add: float_div_int_zero)
    then show "propagate_positions twoline line1 line2 start_time hours step_sec
        = Inl ZeroDivisionError"
      by (simp add: pp)
  next
    assume z: "propagate_positions twoline line1 line2 start_time hours step_sec
        = Inl ZeroDivisionError"
    show "step_sec = 0"
    proof (cases "float_div_int (times_3600 hours) step_sec")
      case (Inl e')
      with z pp have "e' = ZeroDivisionError" by simp
      with Inl show ?thesis using float_div_int_error by blast
    next
      case (Inr x)
      with z pp show ?thesis
        by (cases x) (auto split: if_splits)
    qed
  next
    assume "float_div_int (times_3600 hours) step_sec = Inr (Finite q) \<and> q < 1"
    then have f: "float_div_int (times_3600 hours) step_sec = Inr (Finite q)"
      and "(if q < 0 then \<lceil>q\<rceil> else \<lfloor>q\<rfloor>) \<le> 0"
      by (auto simp: ceiling_le_zero floor_le_iff)
    then show "propagate_positions twoline line1 line2 start_time hours step_sec = Inr []"
      by (auto simp: pp)
  next
    assume a: "hours = Finite h \<and> (h \<le> 0 \<and> 0 < step_sec \<or> 0 \<le> h \<and> step_sec < 0)"
    show "propagate_positions twoline line1 line2 start_time hours step_sec = Inr []
        \<or> propagate_positions twoline line1 line2 start_time hours step_sec = Inl OverflowError"
    proof (cases "float_div_int (times_3600 hours) step_sec")
      case (Inl e')
      moreover have "step_sec \<noteq> 0" using a by auto
      ultimately have "e' = OverflowError" using float_div_int_error by blast
      with Inl show ?thesis by (simp add: pp)
    next
      case (Inr x)
      show ?thesis
      proof (cases x)
        case (Finite q')
        with Inr a have "q' \<le> 0" using float_quotient_sign [of h step_sec q'] by auto
        then have "(if q' < 0 then \<lceil>q'\<rceil> else \<lfloor>q'\<rfloor>) \<le> 0"
          by (auto simp: ceiling_le_zero)
        with Inr Finite show ?thesis by (auto simp: pp)
      next
        case Nan
        with Inr a have False
          by (auto simp: float_div_int_def round_double_def Let_def
              split: pyfloat.splits if_splits)
        then show ?thesis ..
      qed (use Inr in \<open>simp_all add: pp\<close>)
    qed
  next
    assume a: "float_div_int (times_3600 hours) step_sec = Inr (Finite q)
        \<and> (\<forall>i. 0 \<le> i \<and> i < \<lfloor>q\<rfloor> \<longrightarrow> in_range (current_time start_time step_sec i))"
    let ?n = "if q < 0 then \<lceil>q\<rceil> else \<lfloor>q\<rfloor>"
    have r: "\<forall>j. 0 \<le> j \<and> j < ?n \<longrightarrow> in_range (current_time start_time step_sec j)"
    proof (cases "q < 0")
      case True
      then have "\<lceil>q\<rceil> \<le> 0" by (simp add: ceiling_le_zero)
      then have "\<not> (0 \<le> j \<and> j < \<lceil>q\<rceil>)" for j by linarith
      with True show ?thesis by (simp only: if_True) blast
    next
      case False
      with a show ?thesis by simp
    qed
    have l: "nat ?n = nat \<lfloor>q\<rfloor>"
    proof (cases "q < 0")
      case True
      then have "\<lceil>q\<rceil> \<le> 0" "\<lfloor>q\<rfloor> \<le> 0" by (simp_all add: ceiling_le_zero floor_le_iff)
      with True show ?thesis by simp
    qed simp
    have "propagate_positions twoline line1 line2 start_time hours step_sec
        = Inr (map (sample satellite start_time step_sec) [0..?n - 1])"
      using a r by (simp add: pp)
    moreover have "length (map (sample satellite start_time step_sec) [0..?n - 1]) = nat \<lfloor>q\<rfloor>"
      using l by simp
    ultimately show "\<exists>ps. propagate_positions twoline line1 line2 start_time hours step_sec = Inr ps
        \<and> length ps = nat \<lfloor>q\<rfloor>"
      by blast
  next
    assume f: "propagate_positions twoline line1 line2 start_time hours step_sec = Inl e"
    show "float_div_int (times_3600 hours) step_sec = Inl e
        \<or> (\<exists>x. float_div_int (times_3600 hours) step_sec = Inr x \<and> py_int x = Inl e)
        \<or> (e = OverflowError
            \<and> (\<exists>i. 0 \<le> i \<and> \<not> in_range (current_time start_time step_sec i)))"
    proof (cases "float_div_int (times_3600 hours) step_sec")
      case (Inl e')
      with f pp show ?thesis by simp
    next
      case (Inr x)
      show ?thesis
      proof (cases "py_int x")
        case (Inl e')
        with f pp Inr show ?thesis by simp
      next
        case n: (Inr n)
        with f pp Inr show ?thesis by (auto split: if_splits)
      qed
    qed
  }
qed

theorem sampler_parameters_unchecked_witness:
  "propagate_positions (\<lambda>l1 l2. Inr (\<lambda>t. (1, (Fin 1, Fin 2, Fin 3))))
      ''1 25544U'' ''2 25544'' 0 (Finite 6) 0 = Inl ZeroDivisionError
   \<and> propagate_positions (\<lambda>l1 l2. Inr (\<lambda>t. (1, (Fin 1, Fin 2, Fin 3))))
      ''1 25544U'' ''2 25544'' 0 (Finite (- 6)) 60 = Inr []
   \<and> (\<exists>ps. propagate_positions (\<lambda>l1 l2. Inr (\<lambda>t. (1, (Fin 1, Fin 2, Fin 3))))
      ''1 25544U'' ''2 25544'' 0 (Finite 6) 60 = Inr ps \<and> length ps = 360)
   \<and> propagate_positions (\<lambda>l1 l2. Inl (LibraryError ''twoline2rv''))
      ''1 25544U'' ''2 25544'' 0 (Finite 6) 60 = Inl (LibraryError ''twoline2rv'')
   \<and> propagate_positions (\<lambda>l1 l2. Inr (\<lambda>t. (1, (Fin 1, Fin 2, Fin 3))))
      ''1 25544U'' ''2 25544'' (datetime_max - 1) (Finite 6) 60 = Inl OverflowError
   \<and> propagate_positions (\<lambda>l1 l2. Inr (\<lambda>t. (1, (Fin 1, Fin 2, Fin 3))))
      ''1 25544U'' ''2 25544'' 0 Nan 60 = Inl ValueError"
proof -
  let ?sat = "\<lambda>t::int. (1::int, (Fin 1, Fin 2, Fin 3))"
  let ?tl = "\<lambda>(l1::string) (l2::string). (Inr ?sat :: error + satrec)"
  let ?bad = "\<lambda>(l1::string) (l2::string). (Inl (LibraryError ''twoline2rv'') :: error + satrec)"
  have d: "round_double 60 = Finite 60"
    by (subst round_double_binade [of 5]) (simp_all add: round_half_even_def)
  have p6: "times_3600 (Finite 6) = Finite 21600"
    by (simp, subst round_double_binade [of 14]) (simp_all add: round_half_even_def)
  have pm: "times_3600 (Finite (- 6)) = Finite (- 21600)"
    by (simp, subst round_double_binade [of 14]) (simp_all add: round_half_even_def)
  have q: "round_double 360 = Finite 360"
    by (subst round_double_binade [of 8]) (simp_all add: round_half_even_def)
  have qm: "round_double (- 360) = Finite (- 360)"
    by (subst round_double_binade [of 8]) (simp_all add: round_half_even_def)
  have f6: "float_div_int (times_3600 (Finite 6)) 60 = Inr (Finite 360)"
    unfolding p6 float_div_int_def by (simp add: d q)
  have fm: "float_div_int (times_3600 (Finite (- 6))) 60 = Inr (Finite (- 360))"
    unfolding pm float_div_int_def by (simp add: d qm)
  have fn: "float_div_int (times_3600 Nan) 60 = Inr Nan"
    unfolding float_div_int_def by (simp add: d)
  have h: "?tl ''1 25544U'' ''2 25544'' = Inr ?sat" by simp
  have a: "propagate_positions ?tl ''1 25544U'' ''2 25544'' 0 (Finite 6) 0
      = Inl ZeroDivisionError"
    using sampler_parameters_unchecked
      [where twoline = ?tl and ?line1.0 = "''1 25544U''" and ?line2.0 = "''2 25544''"
         and satellite = ?sat and start_time = 0 and hours = "Finite 6" and step_sec = 0]
    by simp
  have b: "propagate_positions ?tl ''1 25544U'' ''2 25544'' 0 (Finite (- 6)) 60 = Inr []"
    using sampler_parameters_unchecked
      [where twoline = ?tl and ?line1.0 = "''1 25544U''" and ?line2.0 = "''2 25544''"
         and satellite = ?sat and start_time = 0 and hours = "Finite (- 6)"
         and step_sec = 60 and q = "- 360"] fm
    by simp
  have r: "\<forall>i. 0 \<le> i \<and> i < \<lfloor>360 :: real\<rfloor> \<longrightarrow> in_range (current_time 0 60 i)"
    by (simp add: in_range_def current_time_def timedelta_def datetime_max_def)
  have c: "\<exists>ps. propagate_positions ?tl ''1 25544U'' ''2 25544'' 0 (Finite 6) 60 = Inr ps
      \<and> length ps = 360"
    using sampler_parameters_unchecked
      [where twoline = ?tl and ?line1.0 = "''1 25544U''" and ?line2.0 = "''2 25544''"
         and satellite = ?sat and start_time = 0 and hours = "Finite 6"
         and step_sec = 60 and q = 360] f6 r
    by simp
  have e: "propagate_positions ?bad ''1 25544U'' ''2 25544'' 0 (Finite 6) 60
      = Inl (LibraryError ''twoline2rv'')"
    using sampler_parameters_unchecked
      [where twoline = ?bad and ?line1.0 = "''1 25544U''" and ?line2.0 = "''2 25544''"
         and e = "LibraryError ''twoline2rv''" and start_time = 0 and hours = "Finite 6"
         and step_sec = 60]
    by simp
  have "\<not> in_range (current_time (datetime_max - 1) 60 1)"
    by (simp add: in_range_def current_time_def timedelta_def)
  then have "\<not> (\<forall>j. 0 \<le> j \<and> j < 360 \<longrightarrow> in_range (current_time (datetime_max - 1) 60 j))"
    by (intro notI) (drule spec [of _ 1], simp)
  then have o: "propagate_positions ?tl ''1 25544U'' ''2 25544'' (datetime_max - 1) (Finite 6) 60
      = Inl OverflowError"
    unfolding propagate_positions_ok [where twoline = ?tl and satellite = ?sat, OF h] f6
    by simp
  have n: "propagate_positions ?tl ''1 25544U'' ''2 25544'' 0 Nan 60 = Inl ValueError"
    unfolding propagate_positions_ok [where twoline = ?tl and satellite = ?sat, OF h] fn
    by simp
  show ?thesis using a b c e o n by blast
qed

text \<open>
  C10. The propagator is given the calendar fields of \<open>start_time + i * step_sec\<close>, that is,
  the whole seconds of \<open>start_time\<close> advanced by \<open>i * step_sec\<close>: what is dropped is the
  microsecond field of \<open>start_time\<close>, less than one second and the same at every index.
\<close>

theorem propagator_instant_whole_seconds:
  "calendar_fields (current_time start_time step_sec i) = calendar_fields start_time + i * step_sec
   \<and> current_time start_time step_sec i
        - timedelta (calendar_fields (current_time start_time step_sec i))
      = microsecond start_time
   \<and> 0 \<le> microsecond start_time \<and> microsecond start_time < 1000000
   \<and> sample satellite start_time step_sec i
      = (case satellite (calendar_fields start_time + i * step_sec) of
           (err, position) \<Rightarrow> if err = 0 then position else nan_row)"
proof -
  have cf: "calendar_fields (current_time start_time step_sec i)
      = calendar_fields start_time + i * step_sec"
    by (simp add: calendar_fields_def current_time_def timedelta_def)
  have "current_time start_time step_sec i
        - timedelta (calendar_fields start_time + i * step_sec)
      = start_time - (start_time div 1000000) * 1000000"
    by (simp add: calendar_fields_def current_time_def timedelta_def algebra_simps)
  also have "\<dots> = microsecond start_time"
    by (simp add: microsecond_def minus_div_mult_eq_mod)
  finally have ms: "current_time start_time step_sec i
        - timedelta (calendar_fields (current_time start_time step_sec i))
      = microsecond start_time"
    by (simp add: cf)
  have b: "0 \<le> microsecond start_time \<and> microsecond start_time < 1000000"
    by (simp add: microsecond_def)
  have s: "sample satellite start_time step_sec i
      = (case satellite (calendar_fields start_time + i * step_sec) of
           (err, position) \<Rightarrow> if err = 0 then position else nan_row)"
    by (simp add: sample_def cf)
  show ?thesis using cf ms b s by blast
qed

theorem propagator_instant_whole_seconds_witness:
  "calendar_fields (current_time 1999999 60 2) = 121
   \<and> current_time 1999999 60 2 - timedelta (calendar_fields (current_time 1999999 60 2)) = 999999
   \<and> sample (\<lambda>t. (0, (Fin (real_of_int t), Fin 0, Fin 0))) 1999999 60 2 = (Fin 121, Fin 0, Fin 0)"
  using propagator_instant_whole_seconds
          [of 1999999 60 2 "\<lambda>t. (0, (Fin (real_of_int t), Fin 0, Fin 0))"]
  by (simp add: calendar_fields_def microsecond_def current_time_def timedelta_def)

subsection \<open>Failed retrievals\<close>

text \<open>
  C8. A retrieval fails exactly when the request raises or the stripped response has fewer
  than three lines. The script sends at most one request per listed identifier, in the
  order of the list, and exactly one each when it runs to its end: nothing is retried. The
  outcome of the run is the outcome of the run on the list without the identifiers whose
  retrieval fails. When the run reaches its end, the dictionary has an entry exactly for
  the listed identifiers whose retrieval succeeded, each with its name and sampled
  trajectory, and the events are those of the pairs of entries of the dictionary.
\<close>

theorem failed_fetch_excludes_object:
  "fetched (requests_get ev) nid
     = (\<exists>body. requests_get ev nid = Body body \<and> 3 \<le> length (splitlines (strip body)))
   \<and> (\<exists>k. fst (main_script ev cfg start_time) = take k (NORAD_IDS cfg))
   \<and> snd (main_script ev cfg start_time)
       = snd (main_script ev
                (cfg\<lparr>NORAD_IDS := filter (fetched (requests_get ev)) (NORAD_IDS cfg)\<rparr>)
                start_time)
   \<and> (main_script ev cfg start_time = (reqs, Inr (sats, events)) \<longrightarrow>
        reqs = NORAD_IDS cfg
        \<and> distinct (map fst sats)
        \<and> (\<forall>n. (map_of sats n \<noteq> None)
                  = (n \<in> set (NORAD_IDS cfg) \<and> fetched (requests_get ev) n))
        \<and> (\<forall>n. n \<in> set (NORAD_IDS cfg) \<and> fetched (requests_get ev) n \<longrightarrow>
                  map_of sats n = loaded ev cfg start_time n)
        \<and> map (\<lambda>e. (s1 e, s2 e)) events
            = map (\<lambda>(a, b). (name a, name b)) (pairs_of (map snd sats)))"
proof (intro conjI impI)
  show "fetched (requests_get ev) nid
     = (\<exists>body. requests_get ev nid = Body body \<and> 3 \<le> length (splitlines (strip body)))"
    by (rule fetched_iff)
next
  let ?l = "load_sats ev cfg start_time (NORAD_IDS cfg) [] []"
  have "fst (main_script ev cfg start_time) = fst ?l"
    by (simp add: main_script_def split: prod.splits sum.splits)
  then show "\<exists>k. fst (main_script ev cfg start_time) = take k (NORAD_IDS cfg)"
    using load_sats_reqs_prefix [of ev cfg start_time "NORAD_IDS cfg" "[]" "[]"] by simp
next
  let ?ids = "filter (fetched (requests_get ev)) (NORAD_IDS cfg)"
  let ?cfg = "cfg\<lparr>NORAD_IDS := ?ids\<rparr>"
  have m: "snd (main_script ev c start_time)
      = (case snd (load_sats ev c start_time (NORAD_IDS c) [] []) of
           Inl e \<Rightarrow> Inl e
         | Inr sats \<Rightarrow>
             (case collision_analysis c start_time sats of
                Inl e \<Rightarrow> Inl e
              | Inr closest_events \<Rightarrow> Inr (sats, closest_events)))" for c
    by (simp add: main_script_def split: prod.splits sum.splits)
  have l: "snd (load_sats ev ?cfg start_time (NORAD_IDS ?cfg) [] [])
      = snd (load_sats ev cfg start_time (NORAD_IDS cfg) [] [])"
    using load_sats_skips_failed [of ev cfg start_time "NORAD_IDS cfg" "[]" "[]" "[]"]
    by (simp add: load_sats_ids_irrelevant)
  have c: "collision_analysis ?cfg start_time x = collision_analysis cfg start_time x" for x
    by (simp add: collision_analysis_def outer_loop_ids_irrelevant)
  show "snd (main_script ev cfg start_time) = snd (main_script ev ?cfg start_time)"
    by (simp only: m l c)
next
  assume a: "main_script ev cfg start_time = (reqs, Inr (sats, events))"
  let ?l = "load_sats ev cfg start_time (NORAD_IDS cfg) [] []"
  from a have ls: "snd ?l = Inr sats" and lr: "fst ?l = reqs"
    and ca: "collision_analysis cfg start_time sats = Inr events"
    by (auto simp: main_script_def split: prod.splits sum.splits)
  note s = load_sats_success [OF ls]
  show "reqs = NORAD_IDS cfg" using s lr by simp
  show "distinct (map fst sats)"
    using load_sats_distinct [OF _ ls] by simp
  show "\<forall>n. (map_of sats n \<noteq> None)
                  = (n \<in> set (NORAD_IDS cfg) \<and> fetched (requests_get ev) n)"
    using s by auto
  show "\<forall>n. n \<in> set (NORAD_IDS cfg) \<and> fetched (requests_get ev) n \<longrightarrow>
                  map_of sats n = loaded ev cfg start_time n"
    using s by auto
  show "map (\<lambda>e. (s1 e, s2 e)) events
            = map (\<lambda>(a, b). (name a, name b)) (pairs_of (map snd sats))"
    using outer_loop_names [of cfg start_time "map snd sats" "[]" events] ca
    by (simp add: collision_analysis_def)
qed

theorem failed_fetch_excludes_object_witness:
  "main_script example_env example_config 0
     = ([1, 2, 3, 4],
        Inr ([(2, \<lparr>name = ''ISS'', positions = [(Fin 8, Fin 0, Fin 0)]\<rparr>),
              (4, \<lparr>name = ''STARLINK'', positions = [(Fin 7, Fin 0, Fin 0)]\<rparr>)],
             [\<lparr>s1 = ''ISS'', s2 = ''STARLINK'', distance = Fin 1, time_of_approach = 0\<rparr>]))
   \<and> \<not> fetched (requests_get example_env) 1
   \<and> \<not> fetched (requests_get example_env) 3
   \<and> map_of [(2::int, \<lparr>name = ''ISS'', positions = [(Fin 8, Fin 0, Fin 0)]\<rparr>),
              (4, \<lparr>name = ''STARLINK'', positions = [(Fin 7, Fin 0, Fin 0)]\<rparr>)] 2
       = loaded example_env example_config 0 2"
proof -
  let ?sats = "[(2::int, \<lparr>name = ''ISS'', positions = [(Fin 8, Fin 0, Fin 0)]\<rparr>),
              (4, \<lparr>name = ''STARLINK'', positions = [(Fin 7, Fin 0, Fin 0)]\<rparr>)]"
  let ?events = "[\<lparr>s1 = ''ISS'', s2 = ''STARLINK'', distance = Fin 1, time_of_approach = 0\<rparr>]"
  have f1: "fetch_tle (requests_get example_env) 1 r = (None, r @ [1])" for r
    by (simp add: fetch_tle_def example_env_def)
  have f2: "fetch_tle (requests_get example_env) 2 r
      = (Some (''ISS'', ''1 25544U'', ''2 25544''), r @ [2])" for r
    by (simp add: fetch_tle_def example_env_def splitlines_def strip_def isspace_def
        is_linebreak_def)
  have f3: "fetch_tle (requests_get example_env) 3 r = (None, r @ [3])" for r
    by (simp add: fetch_tle_def example_env_def splitlines_def strip_def isspace_def
        is_linebreak_def)
  have f4: "fetch_tle (requests_get example_env) 4 r
      = (Some (''STARLINK'', ''1 58215'', ''2 58215''), r @ [4])" for r
    by (simp add: fetch_tle_def example_env_def splitlines_def strip_def isspace_def
        is_linebreak_def)
  have u: "[0..0] = [0::int]" by (simp add: upto_rec1)
  have w: "times_3600 (Finite (1 / 32)) = Finite (225 / 2)"
    by (simp, subst round_double_binade [of 6]) (simp_all add: round_half_even_def)
  have d: "round_double 60 = Finite 60"
    by (subst round_double_binade [of 5]) (simp_all add: round_half_even_def)
  have q: "round_double (15 / 8) = Finite (15 / 8)"
    by (subst round_double_binade [of 0]) (simp_all add: round_half_even_def)
  have fq: "float_div_int (times_3600 (Finite (1 / 32))) 60 = Inr (Finite (15 / 8))"
    unfolding w float_div_int_def by (simp add: d q)
  have r: "\<forall>j<1. 0 \<le> j \<longrightarrow> in_range (current_time 0 60 j)"
    by (simp add: in_range_def current_time_def timedelta_def datetime_max_def)
  have p: "propagate_positions (satrec_twoline2rv example_env) l1 l2 0 (Finite (1 / 32)) 60
      = Inr [(Fin (real (length l1)), Fin 0, Fin 0)]" for l1 l2
    unfolding propagate_positions_def fq
    by (simp add: example_env_def propagate_loop_eq u r sample_def)
  have l: "load_sats example_env example_config 0 [1, 2, 3, 4] [] []
      = ([1, 2, 3, 4], Inr ?sats)"
    by (simp add: f1 f2 f3 f4 p example_config_def)
  have c: "closest_approach [(Fin 8, Fin 0, Fin 0)] [(Fin 7, Fin 0, Fin 0)] = Inr (0, Fin 1)"
    by (simp add: closest_approach_def min_dist_def pair_distances_def ndarray_sub_def linalg_norm_def
        nanargmin_def argmin_def)
  have a: "collision_analysis example_config 0 ?sats = Inr ?events"
    by (simp add: collision_analysis_def c make_event_def timedelta_def)
  have ids: "NORAD_IDS example_config = [1, 2, 3, 4]" by (simp add: example_config_def)
  have m: "main_script example_env example_config 0 = ([1, 2, 3, 4], Inr (?sats, ?events))"
    unfolding main_script_def ids l by (simp add: a)
  note t = failed_fetch_excludes_object
             [of example_env 1 example_config 0 "[1, 2, 3, 4]" ?sats ?events]
  have n1: "\<not> fetched (requests_get example_env) 1"
    using f1 [of "[]"] by (simp add: fetched_def)
  have n3: "\<not> fetched (requests_get example_env) 3"
    using f3 [of "[]"] by (simp add: fetched_def)
  have y2: "fetched (requests_get example_env) 2"
    using f2 [of "[]"] by (simp add: fetched_def)
  have "\<forall>n. n \<in> set (NORAD_IDS example_config) \<and> fetched (requests_get example_env) n \<longrightarrow>
          map_of ?sats n = loaded example_env example_config 0 n"
    using t m by blast
  moreover have "2 \<in> set (NORAD_IDS example_config)" using ids by simp
  ultimately have "map_of ?sats 2 = loaded example_env example_config 0 2"
    using y2 by blast
  then show ?thesis using m n1 n3 by blast
qed

end
